theory Spec2Isabelle
  imports Complex_Main "HOL-Library.Multiset" "HOL-Library.Log_Nat"
begin

section \<open>Python values, the random module and the HTTP surface\<close>

text \<open>
  The two scripts \<^verbatim>\<open>scripts/load_test_wallets.py\<close> and \<^verbatim>\<open>scripts/quick_load_test.py\<close> are
  clients of a wallet service. Everything they do not decide themselves is an input of the
  model: the raw draws of the random generator and the answers of the service.

  Exceptions are values. Numbers keep Python's distinction between \<^verbatim>\<open>int\<close> and \<^verbatim>\<open>float\<close>.
  The identifiers and idempotency keys that the scripts generate are inputs as well, since
  they depend on the clock.

  The pacing delays, the timing statistics and the capture file written by \<^verbatim>\<open>write_cap\<close>
  (which swallows its own failures) have no influence on the counters, the population or
  the requests, and are left out. Of the console output the model keeps what can raise
  inside a \<^verbatim>\<open>try\<close> block: the slices \<^verbatim>\<open>wallet["id"][:15]\<close>, \<^verbatim>\<open>["id"][:10]\<close> and \<^verbatim>\<open>wallet_id[:20]\<close> of
  the progress and report lines. Writing a line of text to the console and sleeping are
  taken not to raise.
\<close>

datatype exn = IndexError | KeyError | TypeError | ValueError | RequestError

subsection \<open>Wallet identifiers\<close>

text \<open>
  The scripts store the \<^verbatim>\<open>id\<close> of a created wallet as the service returns it, without a
  check of its type: it is a JSON string, a JSON number or \<^verbatim>\<open>null\<close> (the other JSON values
  are left out). It can be compared, and formatted into a URL or a line of text, whatever
  it is; a slice \<^verbatim>\<open>id[:n]\<close> raises \<^verbatim>\<open>TypeError\<close> unless it is a string.
\<close>

datatype ident = Str string | Num int | Null

fun py_slice :: "nat \<Rightarrow> ident \<Rightarrow> exn + string" where
  "py_slice n (Str s) = Inr (take n s)"
| "py_slice n (Num k) = Inl TypeError"
| "py_slice n Null = Inl TypeError"

subsection \<open>Numbers\<close>

text \<open>
  A Python \<^verbatim>\<open>float\<close> is an IEEE 754 double, given here by the rational number it denotes.
  \<open>double x\<close> is the double nearest to \<open>x\<close>, a tie going to the even significand of 53 bits;
  it is what a float operation returns for the exact result \<open>x\<close>, and what a decimal
  literal \<open>x\<close> denotes. The exponent is not bounded: overflow, subnormal numbers, infinities
  and NaN are left out.
\<close>

datatype number = PyInt int | PyFloat rat

fun number_value :: "number \<Rightarrow> rat" where
  "number_value (PyInt k) = of_int k"
| "number_value (PyFloat q) = q"

text \<open>A number is integral when it has no fractional part, whatever its Python type.\<close>

definition is_integral :: "number \<Rightarrow> bool" where
  "is_integral v = (of_int \<lfloor>number_value v\<rfloor> = number_value v)"

text \<open>Rounding to the nearest integer, a tie to the even neighbour.\<close>

definition round_half_even :: "rat \<Rightarrow> int" where
  "round_half_even x =
     (let f = \<lfloor>x\<rfloor>; d = x - of_int f
      in if d < 1 / 2 then f
         else if 1 / 2 < d then f + 1
         else if even f then f else f + 1)"

text \<open>For \<open>x > 0\<close>, the exponent \<open>e\<close> with \<open>2\<^sup>e \<le> x < 2\<^sup>e\<^sup>+\<^sup>1\<close>.\<close>

definition exponent :: "rat \<Rightarrow> int" where
  "exponent x =
     (case quotient_of x of
        (p, q) \<Rightarrow> (let d = bitlen p - bitlen q in if 2 powi d \<le> x then d else d - 1))"

definition double :: "rat \<Rightarrow> rat" where
  "double x =
     (if x = 0 then 0
      else (let ulp = 2 powi (exponent \<bar>x\<bar> - 52)
            in of_int (round_half_even (x / ulp)) * ulp))"

definition float_add :: "rat \<Rightarrow> rat \<Rightarrow> rat" where
  "float_add x y = double (x + y)"

definition float_sub :: "rat \<Rightarrow> rat \<Rightarrow> rat" where
  "float_sub x y = double (x - y)"

definition float_mul :: "rat \<Rightarrow> rat \<Rightarrow> rat" where
  "float_mul x y = double (x * y)"

subsection \<open>\<^verbatim>\<open>random\<close>\<close>

text \<open>
  Each call of the generator consumes one raw draw \<open>k\<close>. \<^verbatim>\<open>random.choice(seq)\<close> is
  \<^verbatim>\<open>seq[randbelow(len(seq))]\<close> and raises \<^verbatim>\<open>IndexError\<close> on an empty sequence;
  \<^verbatim>\<open>random.randint(a, b)\<close> is \<^verbatim>\<open>a + randbelow(b - a + 1)\<close>; \<^verbatim>\<open>random.random()\<close> is a
  multiple of \<open>2\<^sup>-\<^sup>5\<^sup>3\<close> in \<open>[0, 1)\<close>; \<^verbatim>\<open>random.uniform(a, b)\<close> is
  \<^verbatim>\<open>a + (b - a) * random()\<close>, computed in floats.
\<close>

definition py_choice :: "nat \<Rightarrow> 'a list \<Rightarrow> exn + 'a" where
  "py_choice k xs = (if xs = [] then Inl IndexError else Inr (xs ! (k mod length xs)))"

definition py_randint :: "int \<Rightarrow> int \<Rightarrow> nat \<Rightarrow> int" where
  "py_randint a b k = a + int (k mod nat (b - a + 1))"

definition py_random :: "nat \<Rightarrow> rat" where
  "py_random k = of_nat (k mod 2 ^ 53) / 2 ^ 53"

definition py_uniform :: "rat \<Rightarrow> rat \<Rightarrow> nat \<Rightarrow> rat" where
  "py_uniform a b k = float_add a (float_mul (float_sub b a) (py_random k))"

text \<open>
  \<^verbatim>\<open>random.sample(population, k)\<close> raises \<^verbatim>\<open>ValueError\<close> when \<open>k\<close> exceeds the
  population and otherwise picks \<open>k\<close> positions one after the other, each from the
  positions not picked before; the population itself is not changed.
\<close>

fun sample_from :: "'a list \<Rightarrow> nat \<Rightarrow> (nat \<Rightarrow> nat) \<Rightarrow> 'a list" where
  "sample_from pool 0 draws = []"
| "sample_from pool (Suc k) draws =
     (if pool = [] then []
      else let j = draws 0 mod length pool
           in pool ! j # sample_from (take j pool @ drop (Suc j) pool) k (\<lambda>i. draws (Suc i)))"

definition py_sample :: "'a list \<Rightarrow> nat \<Rightarrow> (nat \<Rightarrow> nat) \<Rightarrow> exn + 'a list" where
  "py_sample population k draws =
     (if length population < k then Inl ValueError else Inr (sample_from population k draws))"

subsection \<open>\<^verbatim>\<open>round(x, 2)\<close>\<close>

text \<open>
  Python rounds the exact value of the float \<open>x\<close> to the nearest multiple of \<open>1/100\<close>, a tie
  to the even neighbour, and returns the double nearest to that decimal. A request carries
  a float in its shortest notation that reads back as the same double, which for the
  amounts of the scripts is the decimal itself: \<open>py_round2 x\<close> is that decimal.
\<close>

definition py_round2 :: "rat \<Rightarrow> rat" where
  "py_round2 x = of_int (round_half_even (x * 100)) / 100"

subsection \<open>Requests and responses\<close>

text \<open>
  The requests of the HTTP contract. The list of requests issued so far is carried in
  the state of each script; it is not a variable of the source, it records what the
  calls of \<^verbatim>\<open>requests.post\<close> and \<^verbatim>\<open>requests.get\<close> send.
\<close>

datatype request =
    PostWallet string string number
  | PostCredit ident number
  | PostDebit ident number
  | PostTransfer ident ident number
  | GetWallet ident
  | GetLedger ident

text \<open>
  A call either raises (connection error, timeout, error status, undecodable body) or
  returns the decoded body.
\<close>

datatype 'a response = HttpError | Body 'a

text \<open>The body of a created wallet: each of the three keys the scripts read may be absent.
  The owner and the balance are stored and never read again.\<close>

record wallet_json =
  j_id :: "ident option"
  j_ownerId :: "string option"
  j_balance :: "number option"

text \<open>
  The \<^verbatim>\<open>balance\<close> entry of a wallet body: absent, a value \<^verbatim>\<open>float()\<close> converts (a number or
  a numeric string, given by the exact value of its literal), or a value \<^verbatim>\<open>float()\<close> rejects.
\<close>

datatype jbalance = NoBalance | Balance rat | BadBalance

text \<open>The body of a ledger query, reduced to its optional \<^verbatim>\<open>count\<close> entry.\<close>

type_synonym ledger_json = "int option"

definition send :: "request \<Rightarrow> 'a response \<Rightarrow> request list \<Rightarrow> (exn + 'a) \<times> request list" where
  "send r resp sent =
     ((case resp of HttpError \<Rightarrow> Inl RequestError | Body b \<Rightarrow> Inr b), sent @ [r])"

text \<open>One line of the verification report: the entry count of a wallet, or the error marker.\<close>

datatype report = LedgerEntries ident int | LedgerError ident


section \<open>\<^verbatim>\<open>load_test_wallets.py\<close>\<close>

definition NUM_WALLETS :: nat where
  "NUM_WALLETS = 100"

definition NUM_OPERATIONS :: nat where
  "NUM_OPERATIONS = 200"

record wallet =
  w_id :: ident
  w_ownerId :: string
  w_balance :: number

text \<open>The module state: the eight counters of \<^verbatim>\<open>stats\<close>, \<^verbatim>\<open>created_wallets\<close>, and what was
  sent and reported so far.\<close>

record state =
  wallets_created :: nat
  wallets_failed :: nat
  credits_success :: nat
  credits_failed :: nat
  debits_success :: nat
  debits_failed :: nat
  transfers_success :: nat
  transfers_failed :: nat
  created_wallets :: "wallet list"
  requests :: "request list"
  reports :: "report list"

definition initial_state :: state where
  "initial_state =
     \<lparr>wallets_created = 0, wallets_failed = 0, credits_success = 0, credits_failed = 0,
      debits_success = 0, debits_failed = 0, transfers_success = 0, transfers_failed = 0,
      created_wallets = [], requests = [], reports = []\<rparr>"

subsection \<open>The client functions\<close>

definition create_wallet ::
    "string \<Rightarrow> string \<Rightarrow> number \<Rightarrow> wallet_json response \<Rightarrow> state \<Rightarrow> (exn + wallet_json) \<times> state" where
  "create_wallet wallet_id owner_id initial_balance resp s =
     (case send (PostWallet wallet_id owner_id initial_balance) resp (requests s) of
        (r, sent) \<Rightarrow> (r, s\<lparr>requests := sent\<rparr>))"

definition credit_wallet :: "ident \<Rightarrow> number \<Rightarrow> unit response \<Rightarrow> state \<Rightarrow> (exn + unit) \<times> state" where
  "credit_wallet wallet_id amount resp s =
     (case send (PostCredit wallet_id amount) resp (requests s) of
        (r, sent) \<Rightarrow> (r, s\<lparr>requests := sent\<rparr>))"

definition debit_wallet :: "ident \<Rightarrow> number \<Rightarrow> unit response \<Rightarrow> state \<Rightarrow> (exn + unit) \<times> state" where
  "debit_wallet wallet_id amount resp s =
     (case send (PostDebit wallet_id amount) resp (requests s) of
        (r, sent) \<Rightarrow> (r, s\<lparr>requests := sent\<rparr>))"

definition transfer_wallet ::
    "ident \<Rightarrow> ident \<Rightarrow> number \<Rightarrow> unit response \<Rightarrow> state \<Rightarrow> (exn + unit) \<times> state" where
  "transfer_wallet from_wallet_id to_wallet_id amount resp s =
     (case send (PostTransfer from_wallet_id to_wallet_id amount) resp (requests s) of
        (r, sent) \<Rightarrow> (r, s\<lparr>requests := sent\<rparr>))"

definition get_wallet :: "ident \<Rightarrow> jbalance response \<Rightarrow> state \<Rightarrow> (exn + jbalance) \<times> state" where
  "get_wallet wallet_id resp s =
     (case send (GetWallet wallet_id) resp (requests s) of
        (r, sent) \<Rightarrow> (r, s\<lparr>requests := sent\<rparr>))"

definition get_ledger_entries ::
    "ident \<Rightarrow> ledger_json response \<Rightarrow> state \<Rightarrow> (exn + ledger_json) \<times> state" where
  "get_ledger_entries wallet_id resp s =
     (case send (GetLedger wallet_id) resp (requests s) of
        (r, sent) \<Rightarrow> (r, s\<lparr>requests := sent\<rparr>))"

text \<open>\<^verbatim>\<open>float(wallet_data.get("balance", 0))\<close>\<close>

fun float_balance :: "jbalance \<Rightarrow> exn + rat" where
  "float_balance NoBalance = Inr 0"
| "float_balance (Balance b) = Inr (double b)"
| "float_balance BadBalance = Inl ValueError"

subsection \<open>Step 1: creating the wallets\<close>

text \<open>What one round of the creation loop takes from outside: the two generated
  identifiers, the draw behind the initial balance, and the service's answer.\<close>

record create_env =
  ce_wallet_id :: string
  ce_owner_id :: string
  ce_balance :: nat
  ce_response :: "wallet_json response"

definition create_iteration :: "create_env \<Rightarrow> state \<Rightarrow> state" where
  "create_iteration e s =
     (let initial_balance = PyFloat (py_round2 (py_uniform 100 10000 (ce_balance e)))
      in case create_wallet (ce_wallet_id e) (ce_owner_id e) initial_balance (ce_response e) s of
           (Inl x, s1) \<Rightarrow> s1\<lparr>wallets_failed := wallets_failed s1 + 1\<rparr>
         | (Inr wallet, s1) \<Rightarrow>
             (case (j_id wallet, j_ownerId wallet, j_balance wallet) of
                (Some i, Some ow, Some b) \<Rightarrow>
                  s1\<lparr>created_wallets :=
                        created_wallets s1 @ [\<lparr>w_id = i, w_ownerId = ow, w_balance = b\<rparr>],
                     wallets_created := wallets_created s1 + 1\<rparr>
              | _ \<Rightarrow> s1\<lparr>wallets_failed := wallets_failed s1 + 1\<rparr>))"

definition create_phase :: "nat \<Rightarrow> (nat \<Rightarrow> create_env) \<Rightarrow> state \<Rightarrow> state" where
  "create_phase n env s = fold create_iteration (map env [0..<n]) s"

subsection \<open>Step 3: the random operations\<close>

record op_env =
  oe_operation :: nat
  oe_wallet :: nat
  oe_to_wallet :: nat
  oe_amount :: nat
  oe_get :: "jbalance response"
  oe_post :: "unit response"

definition choose_operation :: "nat \<Rightarrow> string" where
  "choose_operation k = [''credit'', ''debit'', ''transfer''] ! (k mod 3)"

text \<open>
  The three branches of the \<^verbatim>\<open>try\<close> block. Each returns the exception that left the
  block, if any, with the state as it was when the exception was raised. The progress line
  of a request that was accepted follows the increment of the success counter inside the
  block, and formats a slice of each wallet id it shows. \<open>double (3 / 10)\<close> is the float that
  the literal \<^verbatim>\<open>0.3\<close> denotes; \<^verbatim>\<open>0.5\<close> is exact.
\<close>

definition credit_branch :: "op_env \<Rightarrow> state \<Rightarrow> exn option \<times> state" where
  "credit_branch e s =
     (case py_choice (oe_wallet e) (created_wallets s) of
        Inl x \<Rightarrow> (Some x, s)
      | Inr wallet \<Rightarrow>
          (let amount = py_round2 (py_uniform 10 1000 (oe_amount e))
           in case credit_wallet (w_id wallet) (PyFloat amount) (oe_post e) s of
                (Inl x, s1) \<Rightarrow> (Some x, s1)
              | (Inr result, s1) \<Rightarrow>
                  (let s2 = s1\<lparr>credits_success := credits_success s1 + 1\<rparr>
                   in case py_slice 15 (w_id wallet) of
                        Inl x \<Rightarrow> (Some x, s2)
                      | Inr shown \<Rightarrow> (None, s2))))"

definition debit_branch :: "op_env \<Rightarrow> state \<Rightarrow> exn option \<times> state" where
  "debit_branch e s =
     (case py_choice (oe_wallet e) (created_wallets s) of
        Inl x \<Rightarrow> (Some x, s)
      | Inr wallet \<Rightarrow>
          (case get_wallet (w_id wallet) (oe_get e) s of
             (Inl x, s1) \<Rightarrow> (Some x, s1)
           | (Inr wallet_data, s1) \<Rightarrow>
               (case float_balance wallet_data of
                  Inl x \<Rightarrow> (Some x, s1)
                | Inr current_balance \<Rightarrow>
                    (let max_debit = min (float_mul current_balance (1 / 2)) 500
                     in if 10 < max_debit then
                          (let amount = py_round2 (py_uniform 10 max_debit (oe_amount e))
                           in case debit_wallet (w_id wallet) (PyFloat amount) (oe_post e) s1 of
                                (Inl x, s2) \<Rightarrow> (Some x, s2)
                              | (Inr result, s2) \<Rightarrow>
                                  (let s3 = s2\<lparr>debits_success := debits_success s2 + 1\<rparr>
                                   in case py_slice 15 (w_id wallet) of
                                        Inl x \<Rightarrow> (Some x, s3)
                                      | Inr shown \<Rightarrow> (None, s3)))
                        else (None, s1\<lparr>debits_failed := debits_failed s1 + 1\<rparr>)))))"

definition transfer_branch :: "op_env \<Rightarrow> state \<Rightarrow> exn option \<times> state" where
  "transfer_branch e s =
     (if length (created_wallets s) < 2 then
        (None, s\<lparr>transfers_failed := transfers_failed s + 1\<rparr>)
      else
        (case py_choice (oe_wallet e) (created_wallets s) of
           Inl x \<Rightarrow> (Some x, s)
         | Inr from_wallet \<Rightarrow>
             (case py_choice (oe_to_wallet e)
                     (filter (\<lambda>w. w_id w \<noteq> w_id from_wallet) (created_wallets s)) of
                Inl x \<Rightarrow> (Some x, s)
              | Inr to_wallet \<Rightarrow>
                  (case get_wallet (w_id from_wallet) (oe_get e) s of
                     (Inl x, s1) \<Rightarrow> (Some x, s1)
                   | (Inr wallet_data, s1) \<Rightarrow>
                       (case float_balance wallet_data of
                          Inl x \<Rightarrow> (Some x, s1)
                        | Inr current_balance \<Rightarrow>
                            (let max_transfer =
                                   min (float_mul current_balance (double (3 / 10))) 300
                             in if 10 < max_transfer then
                                  (let amount =
                                         py_round2 (py_uniform 10 max_transfer (oe_amount e))
                                   in case transfer_wallet (w_id from_wallet) (w_id to_wallet)
                                             (PyFloat amount) (oe_post e) s1 of
                                        (Inl x, s2) \<Rightarrow> (Some x, s2)
                                      | (Inr result, s2) \<Rightarrow>
                                          (let s3 = s2\<lparr>transfers_success :=
                                                        transfers_success s2 + 1\<rparr>
                                           in case py_slice 10 (w_id from_wallet) of
                                                Inl x \<Rightarrow> (Some x, s3)
                                              | Inr shown_from \<Rightarrow>
                                                  (case py_slice 10 (w_id to_wallet) of
                                                     Inl x \<Rightarrow> (Some x, s3)
                                                   | Inr shown_to \<Rightarrow> (None, s3))))
                                else
                                  (None,
                                   s1\<lparr>transfers_failed := transfers_failed s1 + 1\<rparr>)))))))"

text \<open>The handler \<^verbatim>\<open>except Exception\<close> of the loop body.\<close>

definition on_exception :: "string \<Rightarrow> state \<Rightarrow> state" where
  "on_exception operation s =
     (if operation = ''credit'' then s\<lparr>credits_failed := credits_failed s + 1\<rparr>
      else if operation = ''debit'' then s\<lparr>debits_failed := debits_failed s + 1\<rparr>
      else if operation = ''transfer'' then s\<lparr>transfers_failed := transfers_failed s + 1\<rparr>
      else s)"

definition try_block :: "string \<Rightarrow> op_env \<Rightarrow> state \<Rightarrow> exn option \<times> state" where
  "try_block operation e s =
     (if operation = ''credit'' then credit_branch e s
      else if operation = ''debit'' then debit_branch e s
      else if operation = ''transfer'' then transfer_branch e s
      else (None, s))"

definition operation_iteration :: "op_env \<Rightarrow> state \<Rightarrow> state" where
  "operation_iteration e s =
     (let operation = choose_operation (oe_operation e)
      in case try_block operation e s of
           (None, s1) \<Rightarrow> s1
         | (Some x, s1) \<Rightarrow> on_exception operation s1)"

definition operations_phase :: "nat \<Rightarrow> (nat \<Rightarrow> op_env) \<Rightarrow> state \<Rightarrow> state" where
  "operations_phase n env s = fold operation_iteration (map env [0..<n]) s"

subsection \<open>Step 5: the ledger sample\<close>

record verify_env =
  ve_sample :: "nat \<Rightarrow> nat"
  ve_ledger :: "nat \<Rightarrow> ledger_json response"

definition verify_wallet :: "wallet \<times> ledger_json response \<Rightarrow> state \<Rightarrow> state" where
  "verify_wallet p s =
     (case p of (wallet, resp) \<Rightarrow>
        (case get_ledger_entries (w_id wallet) resp s of
           (Inl x, s1) \<Rightarrow> s1\<lparr>reports := reports s1 @ [LedgerError (w_id wallet)]\<rparr>
         | (Inr ledger, s1) \<Rightarrow>
             s1\<lparr>reports := reports s1 @
                   [LedgerEntries (w_id wallet) (case ledger of None \<Rightarrow> 0 | Some c \<Rightarrow> c)]\<rparr>))"

definition verify_phase :: "verify_env \<Rightarrow> state \<Rightarrow> exn + state" where
  "verify_phase v s =
     (case py_sample (created_wallets s) (min 5 (length (created_wallets s))) (ve_sample v) of
        Inl x \<Rightarrow> Inl x
      | Inr sample_wallets \<Rightarrow>
          Inr (fold verify_wallet
                 (zip sample_wallets (map (ve_ledger v) [0..<length sample_wallets])) s))"

subsection \<open>\<^verbatim>\<open>main\<close> and the entry point\<close>

text \<open>How \<^verbatim>\<open>main()\<close> ends: it returns, it leaves through \<^verbatim>\<open>sys.exit\<close>, it is interrupted
  from the keyboard, or another exception escapes it.\<close>

datatype ending = Returned | SystemExit int | KeyboardInterrupt | Unexpected string

record env =
  create_envs :: "nat \<Rightarrow> create_env"
  op_envs :: "nat \<Rightarrow> op_env"
  verify_envs :: verify_env

definition main :: "env \<Rightarrow> ending \<times> state" where
  "main w =
     (let s1 = create_phase NUM_WALLETS (create_envs w) initial_state
      in if wallets_created s1 = 0 then (SystemExit 1, s1)
         else
           (let s2 = operations_phase NUM_OPERATIONS (op_envs w) s1
            in case verify_phase (verify_envs w) s2 of
                 Inl x \<Rightarrow> (Unexpected ''ValueError'', s2)
               | Inr s3 \<Rightarrow> (Returned, s3)))"

text \<open>
  The block under \<^verbatim>\<open>if __name__ == "__main__"\<close>: the messages it prints itself (without
  the leading symbol and line breaks) and the exit code of the process.
\<close>

fun entry_point :: "ending \<Rightarrow> string list \<times> int" where
  "entry_point Returned = ([], 0)"
| "entry_point (SystemExit c) = ([], c)"
| "entry_point KeyboardInterrupt = ([''Test interrupted by user''], 1)"
| "entry_point (Unexpected e) = ([''Unexpected error: '' @ e], 1)"

definition exit_message :: "ending \<Rightarrow> string list" where
  "exit_message x = fst (entry_point x)"

definition exit_code :: "ending \<Rightarrow> int" where
  "exit_code x = snd (entry_point x)"


section \<open>\<^verbatim>\<open>quick_load_test.py\<close>\<close>

text \<open>\<^verbatim>\<open>stats\<close> is a dictionary with the four keys below, each holding two counters. No key is
  ever added or removed, so it is a record, and a lookup by a computed key fails with
  \<^verbatim>\<open>KeyError\<close> on any other string.\<close>

record counter =
  success :: nat
  failed :: nat

record stats =
  wallets :: counter
  credit :: counter
  debit :: counter
  transfer :: counter

definition stats_lookup :: "string \<Rightarrow> stats \<Rightarrow> counter option" where
  "stats_lookup k st =
     (if k = ''wallets'' then Some (wallets st)
      else if k = ''credit'' then Some (credit st)
      else if k = ''debit'' then Some (debit st)
      else if k = ''transfer'' then Some (transfer st)
      else None)"

definition stats_update :: "string \<Rightarrow> counter \<Rightarrow> stats \<Rightarrow> stats" where
  "stats_update k c st =
     (if k = ''wallets'' then st\<lparr>wallets := c\<rparr>
      else if k = ''credit'' then st\<lparr>credit := c\<rparr>
      else if k = ''debit'' then st\<lparr>debit := c\<rparr>
      else if k = ''transfer'' then st\<lparr>transfer := c\<rparr>
      else st)"

text \<open>\<^verbatim>\<open>stats[k]["success"] += 1\<close> and \<^verbatim>\<open>stats[k]["failed"] += 1\<close>\<close>

definition increment :: "string \<Rightarrow> bool \<Rightarrow> stats \<Rightarrow> exn + stats" where
  "increment k ok st =
     (case stats_lookup k st of
        None \<Rightarrow> Inl KeyError
      | Some c \<Rightarrow>
          Inr (stats_update k
                 (if ok then c\<lparr>success := success c + 1\<rparr> else c\<lparr>failed := failed c + 1\<rparr>) st))"

record qstate =
  qstats :: stats
  wallet_ids :: "ident list"
  qrequests :: "request list"
  qreports :: "report list"

definition initial_qstate :: qstate where
  "initial_qstate =
     \<lparr>qstats = \<lparr>wallets = \<lparr>success = 0, failed = 0\<rparr>, credit = \<lparr>success = 0, failed = 0\<rparr>,
                debit = \<lparr>success = 0, failed = 0\<rparr>, transfer = \<lparr>success = 0, failed = 0\<rparr>\<rparr>,
      wallet_ids = [], qrequests = [], qreports = []\<rparr>"

record args =
  arg_wallets :: int
  arg_operations :: int
  arg_fast :: bool
  arg_workers :: int

fun exn_str :: "exn \<Rightarrow> string" where
  "exn_str IndexError = ''IndexError''"
| "exn_str KeyError = ''KeyError''"
| "exn_str TypeError = ''TypeError''"
| "exn_str ValueError = ''ValueError''"
| "exn_str RequestError = ''RequestError''"

subsection \<open>The two task functions\<close>

text \<open>A task returns its result together with the requests it has sent. \<open>finished\<close> is the
  moment the task completes; only the parallel mode looks at it.\<close>

record create_env_q =
  cq_wallet_id :: string
  cq_owner_id :: string
  cq_balance :: nat
  cq_response :: "wallet_json response"
  cq_finished :: nat

datatype create_result = CreateSuccess wallet_json | CreateFailure string string

definition create_wallet_q :: "create_env_q \<Rightarrow> create_result \<times> request list" where
  "create_wallet_q e =
     (let wallet_id = cq_wallet_id e;
          owner_id = cq_owner_id e;
          initial_balance = py_randint 100 5000 (cq_balance e)
      in case send (PostWallet wallet_id owner_id (PyInt initial_balance)) (cq_response e) [] of
           (Inl x, sent) \<Rightarrow> (CreateFailure (exn_str x) wallet_id, sent)
         | (Inr data, sent) \<Rightarrow> (CreateSuccess data, sent))"

record op_env_q =
  qo_operation :: nat
  qo_wallet :: nat
  qo_to_wallet :: nat
  qo_amount :: nat
  qo_post :: "unit response"
  qo_finished :: nat

record op_result =
  r_success :: bool
  r_type :: string
  r_amount :: "int option"
  r_error :: "string option"

text \<open>The result of the \<^verbatim>\<open>except\<close> clause of \<^verbatim>\<open>perform_operation\<close>.\<close>

definition caught :: "string \<Rightarrow> exn \<Rightarrow> op_result" where
  "caught op_type x =
     \<lparr>r_success = False, r_type = op_type, r_amount = None, r_error = Some (exn_str x)\<rparr>"

text \<open>\<^verbatim>\<open>perform_operation\<close> returns \<open>None\<close> where the Python function falls off its end.\<close>

definition perform_operation ::
    "string \<Rightarrow> ident list \<Rightarrow> op_env_q \<Rightarrow> op_result option \<times> request list" where
  "perform_operation op_type ids e =
     (if op_type = ''credit'' then
        (case py_choice (qo_wallet e) ids of
           Inl x \<Rightarrow> (Some (caught op_type x), [])
         | Inr wallet_id \<Rightarrow>
             (let amount = py_randint 10 500 (qo_amount e)
              in case send (PostCredit wallet_id (PyInt amount)) (qo_post e) [] of
                   (Inl x, sent) \<Rightarrow> (Some (caught op_type x), sent)
                 | (Inr response, sent) \<Rightarrow>
                     (Some \<lparr>r_success = True, r_type = ''credit'', r_amount = Some amount,
                            r_error = None\<rparr>, sent)))
      else if op_type = ''debit'' then
        (case py_choice (qo_wallet e) ids of
           Inl x \<Rightarrow> (Some (caught op_type x), [])
         | Inr wallet_id \<Rightarrow>
             (let amount = py_randint 10 200 (qo_amount e)
              in case send (PostDebit wallet_id (PyInt amount)) (qo_post e) [] of
                   (Inl x, sent) \<Rightarrow> (Some (caught op_type x), sent)
                 | (Inr response, sent) \<Rightarrow>
                     (Some \<lparr>r_success = True, r_type = ''debit'', r_amount = Some amount,
                            r_error = None\<rparr>, sent)))
      else if op_type = ''transfer'' then
        (if length ids < 2 then
           (Some \<lparr>r_success = False, r_type = ''transfer'', r_amount = None,
                  r_error = Some ''Not enough wallets''\<rparr>, [])
         else
           (case py_choice (qo_wallet e) ids of
              Inl x \<Rightarrow> (Some (caught op_type x), [])
            | Inr from_wallet \<Rightarrow>
                (case py_choice (qo_to_wallet e) (filter (\<lambda>w. w \<noteq> from_wallet) ids) of
                   Inl x \<Rightarrow> (Some (caught op_type x), [])
                 | Inr to_wallet \<Rightarrow>
                     (let amount = py_randint 10 300 (qo_amount e)
                      in case send (PostTransfer from_wallet to_wallet (PyInt amount))
                                (qo_post e) [] of
                           (Inl x, sent) \<Rightarrow> (Some (caught op_type x), sent)
                         | (Inr response, sent) \<Rightarrow>
                             (Some \<lparr>r_success = True, r_type = ''transfer'',
                                    r_amount = Some amount, r_error = None\<rparr>, sent)))))
      else (None, []))"

subsection \<open>What \<^verbatim>\<open>main\<close> does with a result\<close>

definition record_wallet :: "create_result \<Rightarrow> qstate \<Rightarrow> exn + qstate" where
  "record_wallet result s =
     (case result of
        CreateSuccess data \<Rightarrow>
          (case j_id data of
             None \<Rightarrow> Inl KeyError
           | Some i \<Rightarrow>
               (case increment ''wallets'' True (qstats s) of
                  Inl x \<Rightarrow> Inl x
                | Inr st \<Rightarrow> Inr (s\<lparr>wallet_ids := wallet_ids s @ [i], qstats := st\<rparr>)))
      | CreateFailure err wallet_id \<Rightarrow>
          (case increment ''wallets'' False (qstats s) of
             Inl x \<Rightarrow> Inl x
           | Inr st \<Rightarrow> Inr (s\<lparr>qstats := st\<rparr>)))"

definition record_operation :: "op_result option \<Rightarrow> qstate \<Rightarrow> exn + qstate" where
  "record_operation result s =
     (case result of
        None \<Rightarrow> Inl TypeError
      | Some r \<Rightarrow>
          (case increment (r_type r) (r_success r) (qstats s) of
             Inl x \<Rightarrow> Inl x
           | Inr st \<Rightarrow> Inr (s\<lparr>qstats := st\<rparr>)))"

subsection \<open>The two execution modes\<close>

text \<open>
  Sequential mode runs a task and records its result before the next task starts; an
  exception in \<^verbatim>\<open>main\<close> ends the loop there.
\<close>

fun sequential ::
    "('e \<Rightarrow> 'r \<times> request list) \<Rightarrow> ('r \<Rightarrow> qstate \<Rightarrow> exn + qstate) \<Rightarrow> 'e list \<Rightarrow> qstate
      \<Rightarrow> exn option \<times> qstate" where
  "sequential task record [] s = (None, s)"
| "sequential task record (e # es) s =
     (case task e of
        (result, sent) \<Rightarrow>
          (case record result (s\<lparr>qrequests := qrequests s @ sent\<rparr>) of
             Inl x \<Rightarrow> (Some x, s\<lparr>qrequests := qrequests s @ sent\<rparr>)
           | Inr s1 \<Rightarrow> sequential task record es s1))"

text \<open>
  Parallel mode submits every task to the pool, which raises \<^verbatim>\<open>ValueError\<close> unless it has
  at least one worker. The main thread alone records the results, in the order in which
  the tasks complete (\<^verbatim>\<open>as_completed\<close>); leaving the \<^verbatim>\<open>with\<close> block waits for every task, so
  all of them send their requests even when recording stops at an exception. The requests
  are listed in completion order.
\<close>

definition completion_order :: "(nat \<Rightarrow> nat) \<Rightarrow> nat \<Rightarrow> nat list" where
  "completion_order finished n = sort_key finished [0..<n]"

fun record_all :: "('r \<Rightarrow> qstate \<Rightarrow> exn + qstate) \<Rightarrow> 'r list \<Rightarrow> qstate \<Rightarrow> exn option \<times> qstate" where
  "record_all record [] s = (None, s)"
| "record_all record (r # rs) s =
     (case record r s of
        Inl x \<Rightarrow> (Some x, s)
      | Inr s1 \<Rightarrow> record_all record rs s1)"

definition parallel ::
    "int \<Rightarrow> ('e \<Rightarrow> 'r \<times> request list) \<Rightarrow> ('r \<Rightarrow> qstate \<Rightarrow> exn + qstate) \<Rightarrow> 'e list \<Rightarrow> qstate
      \<Rightarrow> exn option \<times> qstate" where
  "parallel workers task record es s =
     (if workers \<le> 0 then (Some ValueError, s)
      else
        (let done = map task es
         in record_all record (map fst done)
              (s\<lparr>qrequests := qrequests s @ concat (map snd done)\<rparr>)))"

subsection \<open>The phases of \<^verbatim>\<open>main\<close>\<close>

definition create_phase_q :: "args \<Rightarrow> (nat \<Rightarrow> create_env_q) \<Rightarrow> qstate \<Rightarrow> exn option \<times> qstate" where
  "create_phase_q a env s =
     (let n = nat (arg_wallets a)
      in if arg_fast a then
           parallel (arg_workers a) create_wallet_q record_wallet
             (map env (completion_order (\<lambda>i. cq_finished (env i)) n)) s
         else sequential create_wallet_q record_wallet (map env [0..<n]) s)"

text \<open>The task of one operation: the kind is drawn first, then the operation runs on the
  wallets created so far.\<close>

definition operation_task :: "ident list \<Rightarrow> op_env_q \<Rightarrow> op_result option \<times> request list" where
  "operation_task ids e = perform_operation (choose_operation (qo_operation e)) ids e"

definition operations_phase_q :: "args \<Rightarrow> (nat \<Rightarrow> op_env_q) \<Rightarrow> qstate \<Rightarrow> exn option \<times> qstate" where
  "operations_phase_q a env s =
     (let n = nat (arg_operations a)
      in if arg_fast a then
           parallel (arg_workers a) (operation_task (wallet_ids s)) record_operation
             (map env (completion_order (\<lambda>i. qo_finished (env i)) n)) s
         else sequential (operation_task (wallet_ids s)) record_operation (map env [0..<n]) s)"

text \<open>
  One round of the ledger check. The line of an answered query is printed inside the \<^verbatim>\<open>try\<close>
  block and the line of a failure inside the handler; both format \<^verbatim>\<open>wallet_id[:20]\<close>. An
  exception raised in the handler leaves the loop and \<^verbatim>\<open>main\<close>.
\<close>

definition verify_wallet_q :: "ident \<times> ledger_json response \<Rightarrow> qstate \<Rightarrow> exn option \<times> qstate" where
  "verify_wallet_q p s =
     (case p of (wallet_id, resp) \<Rightarrow>
        (case send (GetLedger wallet_id) resp (qrequests s) of
           (answer, sent) \<Rightarrow>
             (let s1 = s\<lparr>qrequests := sent\<rparr>;
                  tried = (case answer of
                             Inl x \<Rightarrow> Inl x
                           | Inr ledger \<Rightarrow>
                               (case py_slice 20 wallet_id of
                                  Inl x \<Rightarrow> Inl x
                                | Inr shown \<Rightarrow> Inr ledger))
              in case tried of
                   Inr ledger \<Rightarrow>
                     (None,
                      s1\<lparr>qreports := qreports s1 @
                           [LedgerEntries wallet_id (case ledger of None \<Rightarrow> 0 | Some c \<Rightarrow> c)]\<rparr>)
                 | Inl x \<Rightarrow>
                     (case py_slice 20 wallet_id of
                        Inl y \<Rightarrow> (Some y, s1)
                      | Inr shown \<Rightarrow>
                          (None, s1\<lparr>qreports := qreports s1 @ [LedgerError wallet_id]\<rparr>)))))"

fun verify_loop_q :: "(ident \<times> ledger_json response) list \<Rightarrow> qstate \<Rightarrow> exn option \<times> qstate" where
  "verify_loop_q [] s = (None, s)"
| "verify_loop_q (p # ps) s =
     (case verify_wallet_q p s of
        (Some x, s1) \<Rightarrow> (Some x, s1)
      | (None, s1) \<Rightarrow> verify_loop_q ps s1)"

definition verify_phase_q :: "verify_env \<Rightarrow> qstate \<Rightarrow> exn option \<times> qstate" where
  "verify_phase_q v s =
     (let sample_size = min 5 (length (wallet_ids s))
      in case py_sample (wallet_ids s) sample_size (ve_sample v) of
           Inl x \<Rightarrow> (Some x, s)
         | Inr sample_wallets \<Rightarrow>
             verify_loop_q
               (zip sample_wallets (map (ve_ledger v) [0..<length sample_wallets])) s)"

record env_q =
  create_envs_q :: "nat \<Rightarrow> create_env_q"
  op_envs_q :: "nat \<Rightarrow> op_env_q"
  verify_envs_q :: verify_env

definition main_q :: "args \<Rightarrow> env_q \<Rightarrow> ending \<times> qstate" where
  "main_q a w =
     (case create_phase_q a (create_envs_q w) initial_qstate of
        (Some x, s1) \<Rightarrow> (Unexpected (exn_str x), s1)
      | (None, s1) \<Rightarrow>
          if wallet_ids s1 = [] then (Returned, s1)
          else
            (case operations_phase_q a (op_envs_q w) s1 of
               (Some x, s2) \<Rightarrow> (Unexpected (exn_str x), s2)
             | (None, s2) \<Rightarrow>
                 (case verify_phase_q (verify_envs_q w) s2 of
                    (Some x, s3) \<Rightarrow> (Unexpected (exn_str x), s3)
                  | (None, s3) \<Rightarrow> (Returned, s3))))"

text \<open>
  The script calls \<^verbatim>\<open>main()\<close> with no handler around it, so the exit code is the
  interpreter's: 0 when \<^verbatim>\<open>main\<close> returns, the argument of \<^verbatim>\<open>sys.exit\<close>, 1 for an exception
  that escapes, 130 for an interruption from the keyboard.
\<close>

fun exit_code_q :: "ending \<Rightarrow> int" where
  "exit_code_q Returned = 0"
| "exit_code_q (SystemExit c) = c"
| "exit_code_q KeyboardInterrupt = 130"
| "exit_code_q (Unexpected e) = 1"


section \<open>Observations on a run\<close>

text \<open>The requests sent between two states of a run.\<close>

definition issued :: "state \<Rightarrow> state \<Rightarrow> request list" where
  "issued s s' = drop (length (requests s)) (requests s')"

definition issued_q :: "qstate \<Rightarrow> qstate \<Rightarrow> request list" where
  "issued_q s s' = drop (length (qrequests s)) (qrequests s')"

text \<open>How often a kind of operation is drawn by a list of raw draws.\<close>

definition attempts :: "string \<Rightarrow> nat list \<Rightarrow> nat" where
  "attempts kind picks = length (filter (\<lambda>k. choose_operation k = kind) picks)"

text \<open>The amount a request carries: the initial balance of a wallet, or the amount of an
  operation.\<close>

fun amount_of :: "request \<Rightarrow> number option" where
  "amount_of (PostWallet wallet_id owner_id initial_balance) = Some initial_balance"
| "amount_of (PostCredit wallet_id amount) = Some amount"
| "amount_of (PostDebit wallet_id amount) = Some amount"
| "amount_of (PostTransfer from_wallet to_wallet amount) = Some amount"
| "amount_of (GetWallet wallet_id) = None"
| "amount_of (GetLedger wallet_id) = None"

definition amounts :: "request list \<Rightarrow> number list" where
  "amounts rs = List.map_filter amount_of rs"

definition positive_integer :: "number \<Rightarrow> bool" where
  "positive_integer v = (is_integral v \<and> 0 < number_value v)"

text \<open>A positive float with at most two decimal places.\<close>

fun positive_cents :: "number \<Rightarrow> bool" where
  "positive_cents (PyInt k) = False"
| "positive_cents (PyFloat q) = (0 < q \<and> is_integral (PyFloat (q * 100)))"

text \<open>The requests that change a wallet, and those that only read.\<close>

fun mutating :: "request \<Rightarrow> bool" where
  "mutating (GetWallet wallet_id) = False"
| "mutating (GetLedger wallet_id) = False"
| "mutating r = True"

fun distinct_ends :: "request \<Rightarrow> bool" where
  "distinct_ends (PostTransfer from_wallet to_wallet amount) = (from_wallet \<noteq> to_wallet)"
| "distinct_ends r = True"

text \<open>The report line that belongs to the answer of a ledger query.\<close>

definition report_line :: "ident \<Rightarrow> ledger_json response \<Rightarrow> report" where
  "report_line wallet_id resp =
     (case resp of
        HttpError \<Rightarrow> LedgerError wallet_id
      | Body ledger \<Rightarrow> LedgerEntries wallet_id (case ledger of None \<Rightarrow> 0 | Some c \<Rightarrow> c))"


section \<open>Concrete runs\<close>

text \<open>A run of \<^verbatim>\<open>load_test_wallets.py\<close> against a service that accepts every request.\<close>

definition steady_env :: env where
  "steady_env =
     \<lparr>create_envs = (\<lambda>i.
        \<lparr>ce_wallet_id = ''w'' @ replicate i CHR ''x'', ce_owner_id = ''user-1'', ce_balance = i,
         ce_response = Body \<lparr>j_id = Some (Str (''w'' @ replicate i CHR ''x'')),
                             j_ownerId = Some ''user-1'', j_balance = Some (PyFloat 100)\<rparr>\<rparr>),
      op_envs = (\<lambda>i.
        \<lparr>oe_operation = i, oe_wallet = i, oe_to_wallet = i, oe_amount = i,
         oe_get = Body (Balance 100), oe_post = Body ()\<rparr>),
      verify_envs = \<lparr>ve_sample = (\<lambda>i. i), ve_ledger = (\<lambda>i. Body (Some 1))\<rparr>\<rparr>"

text \<open>A parallel run of \<^verbatim>\<open>quick_load_test.py\<close> with three wallets and four operations; the
  second creation, the second operation and the second ledger query fail, and the tasks
  complete in the reverse of the order of their submission.\<close>

definition example_args :: args where
  "example_args = \<lparr>arg_wallets = 3, arg_operations = 4, arg_fast = True, arg_workers = 2\<rparr>"

definition example_env_q :: env_q where
  "example_env_q =
     \<lparr>create_envs_q = (\<lambda>i.
        \<lparr>cq_wallet_id = ''w'' @ replicate i CHR ''x'', cq_owner_id = ''user-1'',
         cq_balance = i * 77,
         cq_response = (if i = 1 then HttpError
                        else Body \<lparr>j_id = Some (Str (''w'' @ replicate i CHR ''x'')),
                                   j_ownerId = Some ''user-1'', j_balance = Some (PyInt 100)\<rparr>),
         cq_finished = 10 - i\<rparr>),
      op_envs_q = (\<lambda>i.
        \<lparr>qo_operation = i, qo_wallet = i * 5, qo_to_wallet = i * 3, qo_amount = i * 1000,
         qo_post = (if i = 1 then HttpError else Body ()), qo_finished = 10 - i\<rparr>),
      verify_envs_q = \<lparr>ve_sample = (\<lambda>i. i * 7),
                       ve_ledger = (\<lambda>i. if i = 1 then HttpError else Body (Some 3))\<rparr>\<rparr>"

text \<open>A sequential run of \<^verbatim>\<open>quick_load_test.py\<close> while the service is down: every request
  fails.\<close>

definition outage_args :: args where
  "outage_args = \<lparr>arg_wallets = 2, arg_operations = 3, arg_fast = False, arg_workers = 10\<rparr>"

definition outage_env_q :: env_q where
  "outage_env_q =
     \<lparr>create_envs_q = (\<lambda>i.
        \<lparr>cq_wallet_id = ''w'' @ replicate i CHR ''x'', cq_owner_id = ''user-1'', cq_balance = i,
         cq_response = HttpError, cq_finished = i\<rparr>),
      op_envs_q = (\<lambda>i.
        \<lparr>qo_operation = i, qo_wallet = i, qo_to_wallet = i, qo_amount = i,
         qo_post = HttpError, qo_finished = i\<rparr>),
      verify_envs_q = \<lparr>ve_sample = (\<lambda>i. i), ve_ledger = (\<lambda>i. HttpError)\<rparr>\<rparr>"

text \<open>One transfer between two wallets that the service accepts, as a task of
  \<^verbatim>\<open>quick_load_test.py\<close>.\<close>

definition accepted_transfer_q :: op_env_q where
  "accepted_transfer_q =
     \<lparr>qo_operation = 2, qo_wallet = 0, qo_to_wallet = 0, qo_amount = 5,
      qo_post = Body (), qo_finished = 0\<rparr>"

text \<open>A state of \<^verbatim>\<open>load_test_wallets.py\<close> after two wallets were created, and one with a single
  wallet.\<close>

definition example_wallets :: "wallet list" where
  "example_wallets =
     [\<lparr>w_id = Str ''w1'', w_ownerId = ''user-1'', w_balance = PyFloat (1671 / 50)\<rparr>,
      \<lparr>w_id = Str ''w2'', w_ownerId = ''user-2'', w_balance = PyFloat 900\<rparr>]"

definition example_state :: state where
  "example_state = initial_state\<lparr>wallets_created := 2, created_wallets := example_wallets\<rparr>"

definition lonely_state :: state where
  "lonely_state = initial_state\<lparr>wallets_created := 1, created_wallets := [hd example_wallets]\<rparr>"

text \<open>A ledger sample whose first query fails.\<close>

definition example_verify :: verify_env where
  "example_verify =
     \<lparr>ve_sample = (\<lambda>i. i * 7), ve_ledger = (\<lambda>i. if i = 0 then HttpError else Body (Some 3))\<rparr>"

text \<open>Rounds of the operations loop of \<^verbatim>\<open>load_test_wallets.py\<close>: a debit that finds a
  balance of 5; a debit and a transfer from the second wallet that find a balance of 900
  and draw \<^verbatim>\<open>random() = 0.5\<close>; a transfer from the first wallet that finds a balance of 33.42
  and draws \<^verbatim>\<open>random() = 0.96875\<close>.\<close>

definition low_balance_debit :: op_env where
  "low_balance_debit =
     \<lparr>oe_operation = 1, oe_wallet = 0, oe_to_wallet = 0, oe_amount = 0,
      oe_get = Body (Balance 5), oe_post = Body ()\<rparr>"

definition accepted_debit :: op_env where
  "accepted_debit =
     \<lparr>oe_operation = 1, oe_wallet = 1, oe_to_wallet = 0, oe_amount = 2 ^ 52,
      oe_get = Body (Balance 900), oe_post = Body ()\<rparr>"

definition rounding_transfer :: op_env where
  "rounding_transfer =
     \<lparr>oe_operation = 2, oe_wallet = 0, oe_to_wallet = 0, oe_amount = 31 * 2 ^ 48,
      oe_get = Body (Balance (1671 / 50)), oe_post = Body ()\<rparr>"

definition accepted_transfer :: op_env where
  "accepted_transfer =
     \<lparr>oe_operation = 2, oe_wallet = 1, oe_to_wallet = 0, oe_amount = 2 ^ 52,
      oe_get = Body (Balance 900), oe_post = Body ()\<rparr>"

text \<open>A creation round of \<^verbatim>\<open>load_test_wallets.py\<close> that draws \<^verbatim>\<open>random() = 0.125\<close>.\<close>

definition fractional_create :: create_env where
  "fractional_create =
     \<lparr>ce_wallet_id = ''w1'', ce_owner_id = ''user-1'', ce_balance = 2 ^ 50,
      ce_response = Body \<lparr>j_id = Some (Str ''w1''), j_ownerId = Some ''user-1'',
                          j_balance = Some (PyFloat (2675 / 2))\<rparr>\<rparr>"

text \<open>A debit task of \<^verbatim>\<open>quick_load_test.py\<close> that draws the largest amount.\<close>

definition largest_debit_q :: op_env_q where
  "largest_debit_q =
     \<lparr>qo_operation = 1, qo_wallet = 0, qo_to_wallet = 0, qo_amount = 190,
      qo_post = Body (), qo_finished = 0\<rparr>"


text \<open>A run of \<^verbatim>\<open>load_test_wallets.py\<close> against a service that gives its wallets numeric ids
  (the wallet of round \<open>i\<close> gets the id \<open>i\<close>) and accepts every request; every operation that is
  drawn is a credit to the first wallet.\<close>

definition numeric_create :: "nat \<Rightarrow> create_env" where
  "numeric_create i =
     \<lparr>ce_wallet_id = ''w'' @ replicate i CHR ''x'', ce_owner_id = ''user-1'', ce_balance = 0,
      ce_response = Body \<lparr>j_id = Some (Num (int i)), j_ownerId = Some ''user-1'',
                          j_balance = Some (PyFloat 100)\<rparr>\<rparr>"

definition accepted_credit :: op_env where
  "accepted_credit =
     \<lparr>oe_operation = 0, oe_wallet = 0, oe_to_wallet = 0, oe_amount = 0,
      oe_get = Body (Balance 100), oe_post = Body ()\<rparr>"

definition numeric_env :: env where
  "numeric_env =
     \<lparr>create_envs = numeric_create, op_envs = (\<lambda>i. accepted_credit),
      verify_envs = example_verify\<rparr>"

text \<open>A transfer from the first wallet that finds a balance of 33.333333333333336: in floats,
  three tenths of it are exactly 10.\<close>

definition threshold_transfer :: op_env where
  "threshold_transfer =
     \<lparr>oe_operation = 2, oe_wallet = 0, oe_to_wallet = 0, oe_amount = 0,
      oe_get = Body (Balance (4166666666666667 / 125000000000000)), oe_post = Body ()\<rparr>"

text \<open>A sequential run of \<^verbatim>\<open>quick_load_test.py\<close> with two wallets and one operation, against a
  service that gives its wallets numeric ids and accepts every request but the first ledger
  query.\<close>

definition numeric_args :: args where
  "numeric_args = \<lparr>arg_wallets = 2, arg_operations = 1, arg_fast = False, arg_workers = 10\<rparr>"

definition numeric_env_q :: env_q where
  "numeric_env_q =
     \<lparr>create_envs_q = (\<lambda>i.
        \<lparr>cq_wallet_id = ''w'' @ replicate i CHR ''x'', cq_owner_id = ''user-1'', cq_balance = i,
         cq_response = Body \<lparr>j_id = Some (Num (int i)), j_ownerId = Some ''user-1'',
                             j_balance = Some (PyInt 100)\<rparr>,
         cq_finished = i\<rparr>),
      op_envs_q = (\<lambda>i.
        \<lparr>qo_operation = 0, qo_wallet = 0, qo_to_wallet = 0, qo_amount = 0,
         qo_post = Body (), qo_finished = i\<rparr>),
      verify_envs_q = example_verify\<rparr>"


section \<open>Properties\<close>

subsection \<open>The library functions\<close>

lemma py_random_bounds: "0 \<le> py_random k \<and> py_random k < 1"
proof -
  have "k mod 2 ^ 53 < (2::nat) ^ 53" by simp
  then have "(of_nat (k mod 2 ^ 53) :: rat) < of_nat (2 ^ 53)" by (simp only: of_nat_less_iff)
  then show ?thesis by (simp add: py_random_def)
qed

lemma round_half_even_lower: "of_int n \<le> x \<Longrightarrow> n \<le> round_half_even x"
proof -
  assume "of_int n \<le> x"
  then have "n \<le> \<lfloor>x\<rfloor>" by (simp add: le_floor_iff)
  then show ?thesis by (simp add: round_half_even_def Let_def)
qed

lemma round_half_even_le_floor: "round_half_even x \<le> \<lfloor>x\<rfloor> + 1"
  by (simp add: round_half_even_def Let_def)

lemma round_half_even_upper_int: "x \<le> of_int n \<Longrightarrow> round_half_even x \<le> n"
proof (cases "x = of_int n")
  case True
  then show ?thesis by (simp add: round_half_even_def Let_def)
next
  case False
  assume "x \<le> of_int n"
  then have "x < of_int n" using False by simp
  then have "\<lfloor>x\<rfloor> < n" by (simp add: floor_less_iff)
  then show ?thesis using round_half_even_le_floor [of x] by simp
qed

lemma round_half_even_mono:
  assumes "x \<le> y"
  shows "round_half_even x \<le> round_half_even y"
proof (cases "\<lfloor>x\<rfloor> = \<lfloor>y\<rfloor>")
  case True
  then show ?thesis using assms by (auto simp: round_half_even_def Let_def)
next
  case False
  have "\<lfloor>x\<rfloor> \<le> \<lfloor>y\<rfloor>" using assms by (rule floor_mono)
  then have "\<lfloor>x\<rfloor> + 1 \<le> \<lfloor>y\<rfloor>" using False by simp
  moreover have "\<lfloor>y\<rfloor> \<le> round_half_even y" by (rule round_half_even_lower) simp
  ultimately show ?thesis using round_half_even_le_floor [of x] by simp
qed

lemma exponent_bounds:
  assumes "0 < x"
  shows "2 powi exponent x \<le> x \<and> x < 2 powi (exponent x + 1)"
proof -
  obtain p q where pq: "quotient_of x = (p, q)" by (cases "quotient_of x")
  have q: "0 < q" using pq by (rule quotient_of_denom_pos)
  have x: "x = of_int p / of_int q" using pq by (rule quotient_of_div)
  have p: "0 < p" using assms q x by (simp add: zero_less_divide_iff)
  define d where "d = bitlen p - bitlen q"
  have bp: "1 \<le> bitlen p" and bq: "1 \<le> bitlen q"
    using p q by (simp_all add: bitlen_alt_def)
  have "p < 2 ^ nat (bitlen p)" using bitlen_bounds [OF p] by simp
  then have "(of_int p :: rat) < of_int (2 ^ nat (bitlen p))" by (simp only: of_int_less_iff)
  then have pu: "(of_int p :: rat) < 2 powi bitlen p"
    using bp by (simp add: power_int_def)
  have "2 ^ nat (bitlen q - 1) \<le> q" using bitlen_bounds [OF q] by simp
  then have "(of_int (2 ^ nat (bitlen q - 1)) :: rat) \<le> of_int q" by (simp only: of_int_le_iff)
  then have ql: "(2 powi (bitlen q - 1) :: rat) \<le> of_int q"
    using bq by (simp add: power_int_def)
  have "x < 2 powi bitlen p / 2 powi (bitlen q - 1)"
    unfolding x using pu ql q p by (intro frac_less) simp_all
  also have "(2 powi bitlen p / 2 powi (bitlen q - 1) :: rat) = 2 powi (d + 1)"
    by (simp add: d_def power_int_diff [symmetric] algebra_simps)
  finally have up: "x < 2 powi (d + 1)" .
  have "2 ^ nat (bitlen p - 1) \<le> p" using bitlen_bounds [OF p] by simp
  then have "(of_int (2 ^ nat (bitlen p - 1)) :: rat) \<le> of_int p" by (simp only: of_int_le_iff)
  then have pl: "(2 powi (bitlen p - 1) :: rat) \<le> of_int p"
    using bp by (simp add: power_int_def)
  have "q < 2 ^ nat (bitlen q)" using bitlen_bounds [OF q] by simp
  then have "(of_int q :: rat) < of_int (2 ^ nat (bitlen q))" by (simp only: of_int_less_iff)
  then have qu: "(of_int q :: rat) \<le> 2 powi bitlen q"
    using bq by (simp add: power_int_def)
  have "(2 powi (bitlen p - 1) / 2 powi bitlen q :: rat) \<le> x"
    unfolding x using pl qu q p by (intro frac_le) simp_all
  moreover have "(2 powi (bitlen p - 1) / 2 powi bitlen q :: rat) = 2 powi (d - 1)"
    by (simp add: d_def power_int_diff [symmetric] algebra_simps)
  ultimately have low: "2 powi (d - 1) \<le> x" by simp
  have e: "exponent x = (if 2 powi d \<le> x then d else d - 1)"
    by (simp add: exponent_def pq d_def Let_def)
  show ?thesis
  proof (cases "2 powi d \<le> x")
    case True
    then show ?thesis using e up by simp
  next
    case False
    then show ?thesis using e low by simp
  qed
qed

lemma double_bounds:
  assumes "0 < x"
  shows "2 powi exponent x \<le> double x \<and> double x \<le> 2 powi (exponent x + 1)"
proof -
  define e where "e = exponent x"
  define ulp :: rat where "ulp = 2 powi (e - 52)"
  have u: "0 < ulp" by (simp add: ulp_def)
  have d: "double x = of_int (round_half_even (x / ulp)) * ulp"
    using assms by (simp add: double_def Let_def e_def ulp_def)
  have lo: "2 powi e = 2 ^ 52 * ulp" and hi: "2 powi (e + 1) = 2 ^ 53 * ulp"
    by (simp_all add: ulp_def power_int_diff power_int_add)
  have "2 ^ 52 * ulp \<le> x" and "x \<le> 2 ^ 53 * ulp"
    using exponent_bounds [OF assms] lo hi by (simp_all add: e_def)
  then have b: "of_int (2 ^ 52) \<le> x / ulp" "x / ulp \<le> of_int (2 ^ 53)"
    using u by (simp_all add: pos_le_divide_eq pos_divide_le_eq)
  have "2 ^ 52 \<le> round_half_even (x / ulp)" using b(1) by (rule round_half_even_lower)
  moreover have "round_half_even (x / ulp) \<le> 2 ^ 53"
    using b(2) by (rule round_half_even_upper_int)
  ultimately have "(of_int (2 ^ 52) :: rat) \<le> of_int (round_half_even (x / ulp))"
    and "(of_int (round_half_even (x / ulp)) :: rat) \<le> of_int (2 ^ 53)"
    by (simp_all only: of_int_le_iff)
  then have "2 ^ 52 * ulp \<le> double x" and "double x \<le> 2 ^ 53 * ulp"
    using u d by simp_all
  then show ?thesis using lo hi by (simp add: e_def)
qed

lemma double_mono_pos:
  assumes "0 < x" and "x \<le> y"
  shows "double x \<le> double y"
proof -
  have y: "0 < y" using assms by simp
  have le: "exponent x \<le> exponent y"
  proof (rule ccontr)
    assume "\<not> exponent x \<le> exponent y"
    then have "exponent y + 1 \<le> exponent x" by simp
    then have "(2 powi (exponent y + 1) :: rat) \<le> 2 powi exponent x"
      by (intro power_int_increasing) simp_all
    then show False using exponent_bounds [OF assms(1)] exponent_bounds [OF y] assms(2) by simp
  qed
  show ?thesis
  proof (cases "exponent x = exponent y")
    case True
    define ulp :: rat where "ulp = 2 powi (exponent y - 52)"
    have u: "0 < ulp" by (simp add: ulp_def)
    have "x / ulp \<le> y / ulp" using assms(2) u by (simp add: divide_right_mono)
    then have "round_half_even (x / ulp) \<le> round_half_even (y / ulp)"
      by (rule round_half_even_mono)
    then have "(of_int (round_half_even (x / ulp)) :: rat) \<le> of_int (round_half_even (y / ulp))"
      by (simp only: of_int_le_iff)
    then have "of_int (round_half_even (x / ulp)) * ulp \<le> of_int (round_half_even (y / ulp)) * ulp"
      using u by simp
    then show ?thesis using assms(1) y True by (simp add: double_def Let_def ulp_def)
  next
    case False
    then have "exponent x + 1 \<le> exponent y" using le by simp
    then have "(2 powi (exponent x + 1) :: rat) \<le> 2 powi exponent y"
      by (intro power_int_increasing) simp_all
    then show ?thesis using double_bounds [OF assms(1)] double_bounds [OF y] by simp
  qed
qed

lemma double_nonneg: "0 \<le> x \<Longrightarrow> 0 \<le> double x"
proof (cases "x = 0")
  case True
  then show ?thesis by (simp add: double_def)
next
  case False
  assume "0 \<le> x"
  then have x: "0 < x" using False by simp
  have "(0::rat) \<le> 2 powi exponent x" by simp
  moreover have "2 powi exponent x \<le> double x" using double_bounds [OF x] by simp
  ultimately show ?thesis by (rule order_trans)
qed

lemma double_mono:
  assumes "0 \<le> x" and "x \<le> y"
  shows "double x \<le> double y"
proof (cases "x = 0")
  case True
  then show ?thesis using assms double_nonneg [of y] by (simp add: double_def)
next
  case False
  then show ?thesis using assms by (intro double_mono_pos) simp_all
qed

lemma double_10: "double 10 = 10"
  by code_simp

lemma double_100: "double 100 = 100"
  by code_simp


lemma py_random_values:
  "py_random 0 = 0" "py_random (2 ^ 52) = 1 / 2" "py_random (2 ^ 50) = 1 / 8"
  "py_random (31 * 2 ^ 48) = 31 / 32"
  by (simp_all add: py_random_def)

lemma py_uniform_lower:
  assumes "0 \<le> a" and "a \<le> b"
  shows "double a \<le> py_uniform a b k"
proof -
  have "0 \<le> float_sub b a" using assms by (simp add: float_sub_def double_nonneg)
  then have "0 \<le> float_sub b a * py_random k" using py_random_bounds [of k] by simp
  then have "0 \<le> float_mul (float_sub b a) (py_random k)"
    by (simp add: float_mul_def double_nonneg)
  then have "a \<le> a + float_mul (float_sub b a) (py_random k)" by simp
  with assms(1) show ?thesis unfolding py_uniform_def float_add_def by (rule double_mono)
qed

lemma py_round2_lower: "of_int n \<le> x \<Longrightarrow> of_int n \<le> py_round2 x"
proof -
  assume "of_int n \<le> x"
  then have "of_int (n * 100) \<le> x * 100" by simp
  then have "n * 100 \<le> round_half_even (x * 100)" by (rule round_half_even_lower)
  then have "(of_int (n * 100) :: rat) \<le> of_int (round_half_even (x * 100))"
    by (simp only: of_int_le_iff)
  then show ?thesis by (simp add: py_round2_def)
qed

lemma py_round2_cents: "is_integral (PyFloat (py_round2 x * 100))"
  by (simp add: is_integral_def py_round2_def)

lemma py_randint_bounds:
  assumes "a \<le> b"
  shows "a \<le> py_randint a b k \<and> py_randint a b k \<le> b"
proof -
  have "0 < nat (b - a + 1)" using assms by simp
  then have "k mod nat (b - a + 1) < nat (b - a + 1)" by simp
  then have "int (k mod nat (b - a + 1)) < int (nat (b - a + 1))"
    by (simp only: of_nat_less_iff)
  also have "int (nat (b - a + 1)) = b - a + 1" using assms by simp
  finally show ?thesis by (simp add: py_randint_def)
qed

lemma py_choice_member: "py_choice k xs = Inr x \<Longrightarrow> x \<in> set xs"
  by (auto simp: py_choice_def split: if_splits)

lemma py_choice_Inl: "py_choice k xs = Inl x \<Longrightarrow> xs = []"
  by (auto simp: py_choice_def split: if_splits)

lemma length_sample_from: "length (sample_from pool k draws) = min k (length pool)"
proof (induction k arbitrary: pool draws)
  case 0
  show ?case by simp
next
  case (Suc k)
  show ?case
  proof (cases "pool = []")
    case True
    then show ?thesis by simp
  next
    case False
    define j where "j = draws 0 mod length pool"
    have j: "j < length pool" using False by (simp add: j_def)
    then have "length (take j pool @ drop (Suc j) pool) = length pool - 1" by simp
    then have "length (sample_from (take j pool @ drop (Suc j) pool) k (\<lambda>i. draws (Suc i)))
                 = min k (length pool - 1)"
      by (simp only: Suc.IH)
    then show ?thesis using False j by (simp add: Let_def j_def [symmetric])
  qed
qed

lemma mset_remove_position:
  assumes "j < length pool"
  shows "mset pool = add_mset (pool ! j) (mset (take j pool @ drop (Suc j) pool))"
proof -
  have "pool = take j pool @ pool ! j # drop (Suc j) pool"
    using assms by (simp add: id_take_nth_drop)
  then have "mset pool = mset (take j pool @ pool ! j # drop (Suc j) pool)" by simp
  then show ?thesis by simp
qed

lemma mset_sample_from: "mset (sample_from pool k draws) \<subseteq># mset pool"
proof (induction k arbitrary: pool draws)
  case 0
  show ?case by simp
next
  case (Suc k)
  show ?case
  proof (cases "pool = []")
    case True
    then show ?thesis by simp
  next
    case False
    define j where "j = draws 0 mod length pool"
    have j: "j < length pool" using False by (simp add: j_def)
    have "mset (sample_from (take j pool @ drop (Suc j) pool) k (\<lambda>i. draws (Suc i)))
            \<subseteq># mset (take j pool @ drop (Suc j) pool)"
      by (rule Suc.IH)
    then have "add_mset (pool ! j) (mset (sample_from (take j pool @ drop (Suc j) pool) k (\<lambda>i. draws (Suc i))))
            \<subseteq># add_mset (pool ! j) (mset (take j pool @ drop (Suc j) pool))"
      by simp
    then show ?thesis
      using False mset_remove_position [OF j] by (simp add: Let_def j_def)
  qed
qed

lemma distinct_submultiset:
  assumes "mset xs \<subseteq># mset ys" and "distinct ys"
  shows "distinct xs"
proof -
  have "\<And>a. count (mset xs) a \<le> 1"
  proof -
    fix a
    have "count (mset xs) a \<le> count (mset ys) a" using assms(1) by (rule mset_subset_eq_count)
    also have "\<dots> \<le> 1" using assms(2) by (simp add: distinct_count_atmost_1)
    finally show "count (mset xs) a \<le> 1" .
  qed
  moreover have "\<And>a. a \<in> set xs \<Longrightarrow> 0 < count (mset xs) a" by simp
  ultimately have "\<And>a. a \<in> set xs \<Longrightarrow> count (mset xs) a = 1"
    by (metis One_nat_def Suc_leI le_antisym)
  moreover have "\<And>a. a \<notin> set xs \<Longrightarrow> count (mset xs) a = 0"
    by (simp add: count_eq_zero_iff)
  ultimately show ?thesis by (simp add: distinct_count_atmost_1)
qed

lemma py_sample_within:
  "k \<le> length population \<Longrightarrow> py_sample population k draws = Inr (sample_from population k draws)"
  by (simp add: py_sample_def)

subsection \<open>One operation of \<^verbatim>\<open>load_test_wallets.py\<close>\<close>

lemma credit_branch_counters:
  assumes "credit_branch e s = (x, s')"
  shows "created_wallets s' = created_wallets s \<and> reports s' = reports s
    \<and> wallets_created s' = wallets_created s \<and> wallets_failed s' = wallets_failed s
    \<and> credits_failed s' = credits_failed s
    \<and> (x = None \<longrightarrow> credits_success s' = credits_success s + 1)
    \<and> debits_success s' = debits_success s \<and> debits_failed s' = debits_failed s
    \<and> transfers_success s' = transfers_success s \<and> transfers_failed s' = transfers_failed s"
  using assms
  by (auto simp: credit_branch_def credit_wallet_def send_def Let_def
           split: sum.splits response.splits)

lemma debit_branch_counters:
  assumes "debit_branch e s = (x, s')"
  shows "created_wallets s' = created_wallets s \<and> reports s' = reports s
    \<and> wallets_created s' = wallets_created s \<and> wallets_failed s' = wallets_failed s
    \<and> credits_failed s' = credits_failed s \<and> credits_success s' = credits_success s
    \<and> (x = None \<longrightarrow> debits_success s' + debits_failed s' = debits_success s + debits_failed s + 1)
    \<and> transfers_success s' = transfers_success s \<and> transfers_failed s' = transfers_failed s"
  using assms
  by (auto simp: debit_branch_def debit_wallet_def get_wallet_def send_def Let_def
           split: sum.splits response.splits if_splits)

lemma transfer_branch_counters:
  assumes "transfer_branch e s = (x, s')"
  shows "created_wallets s' = created_wallets s \<and> reports s' = reports s
    \<and> wallets_created s' = wallets_created s \<and> wallets_failed s' = wallets_failed s
    \<and> credits_failed s' = credits_failed s \<and> credits_success s' = credits_success s
    \<and> debits_success s' = debits_success s \<and> debits_failed s' = debits_failed s
    \<and> (x = None \<longrightarrow> transfers_success s' + transfers_failed s' = transfers_success s + transfers_failed s + 1)"
  using assms
  by (auto simp: transfer_branch_def transfer_wallet_def get_wallet_def send_def Let_def
           split: sum.splits response.splits if_splits)

lemma issuedI: "requests s' = requests s @ new \<Longrightarrow> issued s s' = new"
  by (simp add: issued_def)

lemma credit_branch_requests:
  assumes "credit_branch e s = (x, s')"
  shows "\<exists>new. requests s' = requests s @ new \<and>
    (new = [] \<or> (\<exists>w\<in>set (created_wallets s).
        new = [PostCredit (w_id w) (PyFloat (py_round2 (py_uniform 10 1000 (oe_amount e))))]))"
  using assms
  by (auto simp: credit_branch_def credit_wallet_def send_def Let_def
           split: sum.splits response.splits)
     (blast dest: py_choice_member)+

lemma debit_branch_requests:
  assumes "debit_branch e s = (x, s')"
  shows "\<exists>new. requests s' = requests s @ new \<and>
    (new = [] \<or> (\<exists>w\<in>set (created_wallets s). new = [GetWallet (w_id w)]) \<or>
     (\<exists>w\<in>set (created_wallets s). \<exists>bal b. oe_get e = Body bal \<and> float_balance bal = Inr b \<and>
        10 < min (float_mul b (1 / 2)) 500 \<and>
        new = [GetWallet (w_id w),
               PostDebit (w_id w)
                 (PyFloat (py_round2 (py_uniform 10 (min (float_mul b (1 / 2)) 500) (oe_amount e))))]))"
  using assms
  by (auto simp: debit_branch_def debit_wallet_def get_wallet_def send_def Let_def
           split: sum.splits response.splits if_splits)
     (blast dest: py_choice_member)+

lemma transfer_branch_requests:
  assumes "transfer_branch e s = (x, s')"
  shows "\<exists>new. requests s' = requests s @ new \<and>
    (new = [] \<or> (\<exists>w\<in>set (created_wallets s). new = [GetWallet (w_id w)]) \<or>
     (\<exists>w\<in>set (created_wallets s). \<exists>w2\<in>set (created_wallets s). \<exists>bal b.
        w_id w2 \<noteq> w_id w \<and> oe_get e = Body bal \<and> float_balance bal = Inr b \<and>
        10 < min (float_mul b (double (3 / 10))) 300 \<and>
        new = [GetWallet (w_id w),
               PostTransfer (w_id w) (w_id w2)
                 (PyFloat (py_round2 (py_uniform 10 (min (float_mul b (double (3 / 10))) 300) (oe_amount e))))]))"
proof -
  have pick2: "\<And>k w y. py_choice k (filter (\<lambda>v. w_id v \<noteq> w_id w) (created_wallets s)) = Inr y
      \<Longrightarrow> y \<in> set (created_wallets s) \<and> w_id y \<noteq> w_id w"
    by (drule py_choice_member) simp
  show ?thesis
    using assms
    by (auto simp: transfer_branch_def transfer_wallet_def get_wallet_def send_def Let_def
           split: sum.splits response.splits if_splits)
       (blast dest: pick2 py_choice_member)+
qed

subsection \<open>The loops of \<^verbatim>\<open>load_test_wallets.py\<close>\<close>

lemma choose_operation_cases:
  "choose_operation k = ''credit'' \<or> choose_operation k = ''debit'' \<or> choose_operation k = ''transfer''"
proof -
  have "k mod 3 = 0 \<or> k mod 3 = 1 \<or> k mod 3 = 2" by arith
  then show ?thesis by (auto simp: choose_operation_def)
qed

lemma operation_iteration_frame:
  fixes e s
  defines "s' \<equiv> operation_iteration e s" and "op \<equiv> choose_operation (oe_operation e)"
  shows "created_wallets s' = created_wallets s \<and> reports s' = reports s
    \<and> wallets_created s' = wallets_created s \<and> wallets_failed s' = wallets_failed s"
proof -
  consider "op = ''credit''" | "op = ''debit''" | "op = ''transfer''"
    using choose_operation_cases [of "oe_operation e"] by (auto simp: op_def)
  then show ?thesis
  proof cases
    case 1
    obtain x s1 where b: "credit_branch e s = (x, s1)" by (cases "credit_branch e s")
    have "s' = (case x of None \<Rightarrow> s1 | Some y \<Rightarrow> on_exception ''credit'' s1)"
      using 1 b by (simp add: s'_def operation_iteration_def try_block_def op_def [symmetric])
    then show ?thesis
      using credit_branch_counters [OF b] 1
      by (cases x) (simp_all add: on_exception_def)
  next
    case 2
    obtain x s1 where b: "debit_branch e s = (x, s1)" by (cases "debit_branch e s")
    have "s' = (case x of None \<Rightarrow> s1 | Some y \<Rightarrow> on_exception ''debit'' s1)"
      using 2 b by (simp add: s'_def operation_iteration_def try_block_def op_def [symmetric])
    then show ?thesis
      using debit_branch_counters [OF b] 2
      by (cases x) (simp_all add: on_exception_def)
  next
    case 3
    obtain x s1 where b: "transfer_branch e s = (x, s1)" by (cases "transfer_branch e s")
    have "s' = (case x of None \<Rightarrow> s1 | Some y \<Rightarrow> on_exception ''transfer'' s1)"
      using 3 b by (simp add: s'_def operation_iteration_def try_block_def op_def [symmetric])
    then show ?thesis
      using transfer_branch_counters [OF b] 3
      by (cases x) (simp_all add: on_exception_def)
  qed
qed

lemma on_exception_requests: "requests (on_exception operation s) = requests s"
  by (simp add: on_exception_def)

lemma fold_operation_frame:
  "created_wallets (fold operation_iteration es s) = created_wallets s
    \<and> reports (fold operation_iteration es s) = reports s
    \<and> wallets_created (fold operation_iteration es s) = wallets_created s
    \<and> wallets_failed (fold operation_iteration es s) = wallets_failed s"
proof (induction es arbitrary: s)
  case Nil
  show ?case by simp
next
  case (Cons e es)
  show ?case
    using Cons.IH [of "operation_iteration e s"] operation_iteration_frame [of e s]
    by simp
qed

lemma attempts_total:
  "attempts ''credit'' picks + attempts ''debit'' picks + attempts ''transfer'' picks = length picks"
proof (induction picks)
  case Nil
  show ?case by (simp add: attempts_def)
next
  case (Cons k picks)
  then show ?case using choose_operation_cases [of k] by (auto simp: attempts_def)
qed

lemma create_iteration_counters:
  fixes e s
  defines "s' \<equiv> create_iteration e s"
  shows "wallets_created s' + wallets_failed s' = wallets_created s + wallets_failed s + 1
    \<and> credits_success s' = credits_success s \<and> credits_failed s' = credits_failed s
    \<and> debits_success s' = debits_success s \<and> debits_failed s' = debits_failed s
    \<and> transfers_success s' = transfers_success s \<and> transfers_failed s' = transfers_failed s
    \<and> reports s' = reports s
    \<and> (\<exists>new. created_wallets s' = created_wallets s @ new \<and> length new \<le> 1 \<and>
          wallets_created s' = wallets_created s + length new)"
  by (auto simp: s'_def create_iteration_def create_wallet_def send_def Let_def
           split: response.splits option.splits)

lemma fold_create_counters:
  "wallets_created (fold create_iteration es s) + wallets_failed (fold create_iteration es s) =
      wallets_created s + wallets_failed s + length es
    \<and> credits_success (fold create_iteration es s) = credits_success s
    \<and> credits_failed (fold create_iteration es s) = credits_failed s
    \<and> debits_success (fold create_iteration es s) = debits_success s
    \<and> debits_failed (fold create_iteration es s) = debits_failed s
    \<and> transfers_success (fold create_iteration es s) = transfers_success s
    \<and> transfers_failed (fold create_iteration es s) = transfers_failed s
    \<and> reports (fold create_iteration es s) = reports s
    \<and> (\<exists>new. created_wallets (fold create_iteration es s) = created_wallets s @ new \<and>
          wallets_created (fold create_iteration es s) = wallets_created s + length new)"
proof (induction es arbitrary: s)
  case Nil
  show ?case by simp
next
  case (Cons e es)
  obtain new1 where n1: "created_wallets (create_iteration e s) = created_wallets s @ new1"
      "wallets_created (create_iteration e s) = wallets_created s + length new1"
    using create_iteration_counters [of e s] by auto
  obtain new2 where n2: "created_wallets (fold create_iteration es (create_iteration e s)) =
        created_wallets (create_iteration e s) @ new2"
      "wallets_created (fold create_iteration es (create_iteration e s)) =
        wallets_created (create_iteration e s) + length new2"
    using Cons.IH [of "create_iteration e s"] by auto
  have "created_wallets (fold create_iteration (e # es) s) = created_wallets s @ (new1 @ new2) \<and>
        wallets_created (fold create_iteration (e # es) s) = wallets_created s + length (new1 @ new2)"
    using n1 n2 by simp
  then have ex: "\<exists>new. created_wallets (fold create_iteration (e # es) s) = created_wallets s @ new \<and>
        wallets_created (fold create_iteration (e # es) s) = wallets_created s + length new"
    by blast
  show ?case
    using Cons.IH [of "create_iteration e s"] create_iteration_counters [of e s] ex
    by simp
qed

subsection \<open>The ledger sample\<close>

lemma verify_wallet_effect:
  "requests (verify_wallet (w, resp) s) = requests s @ [GetLedger (w_id w)]
   \<and> reports (verify_wallet (w, resp) s) = reports s @ [report_line (w_id w) resp]
   \<and> created_wallets (verify_wallet (w, resp) s) = created_wallets s
   \<and> wallets_created (verify_wallet (w, resp) s) = wallets_created s
   \<and> wallets_failed (verify_wallet (w, resp) s) = wallets_failed s
   \<and> credits_success (verify_wallet (w, resp) s) = credits_success s
   \<and> credits_failed (verify_wallet (w, resp) s) = credits_failed s
   \<and> debits_success (verify_wallet (w, resp) s) = debits_success s
   \<and> debits_failed (verify_wallet (w, resp) s) = debits_failed s
   \<and> transfers_success (verify_wallet (w, resp) s) = transfers_success s
   \<and> transfers_failed (verify_wallet (w, resp) s) = transfers_failed s"
  by (cases resp)
     (simp_all add: verify_wallet_def get_ledger_entries_def send_def report_line_def)

lemma fold_verify_wallet:
  "requests (fold verify_wallet ps s) = requests s @ map (\<lambda>p. GetLedger (w_id (fst p))) ps
   \<and> reports (fold verify_wallet ps s) = reports s @ map (\<lambda>p. report_line (w_id (fst p)) (snd p)) ps
   \<and> created_wallets (fold verify_wallet ps s) = created_wallets s
   \<and> wallets_created (fold verify_wallet ps s) = wallets_created s
   \<and> wallets_failed (fold verify_wallet ps s) = wallets_failed s
   \<and> credits_success (fold verify_wallet ps s) = credits_success s
   \<and> credits_failed (fold verify_wallet ps s) = credits_failed s
   \<and> debits_success (fold verify_wallet ps s) = debits_success s
   \<and> debits_failed (fold verify_wallet ps s) = debits_failed s
   \<and> transfers_success (fold verify_wallet ps s) = transfers_success s
   \<and> transfers_failed (fold verify_wallet ps s) = transfers_failed s"
proof (induction ps arbitrary: s)
  case Nil
  show ?case by simp
next
  case (Cons p ps)
  obtain w resp where p: "p = (w, resp)" by (cases p)
  show ?case
    using Cons.IH [of "verify_wallet (w, resp) s"] verify_wallet_effect [of w resp s]
    by (simp add: p)
qed

lemma verify_phase_result:
  "verify_phase v s =
     Inr (fold verify_wallet
            (zip (sample_from (created_wallets s) (min 5 (length (created_wallets s))) (ve_sample v))
                 (map (ve_ledger v) [0..<min 5 (length (created_wallets s))])) s)"
  by (simp add: verify_phase_def py_sample_def length_sample_from)

lemma verify_wallet_q_effect:
  "qrequests (snd (verify_wallet_q (i, resp) s)) = qrequests s @ [GetLedger i]
   \<and> wallet_ids (snd (verify_wallet_q (i, resp) s)) = wallet_ids s
   \<and> qstats (snd (verify_wallet_q (i, resp) s)) = qstats s
   \<and> (case py_slice 20 i of
         Inr shown \<Rightarrow> fst (verify_wallet_q (i, resp) s) = None
           \<and> qreports (snd (verify_wallet_q (i, resp) s)) = qreports s @ [report_line i resp]
       | Inl y \<Rightarrow> fst (verify_wallet_q (i, resp) s) = Some y
           \<and> qreports (snd (verify_wallet_q (i, resp) s)) = qreports s)"
  by (cases resp; cases i) (simp_all add: verify_wallet_q_def send_def report_line_def Let_def)

lemma verify_loop_q_effect:
  "wallet_ids (snd (verify_loop_q ps s)) = wallet_ids s
   \<and> qstats (snd (verify_loop_q ps s)) = qstats s
   \<and> (\<exists>n. qrequests (snd (verify_loop_q ps s)) =
            qrequests s @ map (\<lambda>p. GetLedger (fst p)) (take n ps))"
proof (induction ps arbitrary: s)
  case Nil
  show ?case by simp
next
  case (Cons p ps)
  obtain i resp where p: "p = (i, resp)" by (cases p)
  obtain x s1 where v: "verify_wallet_q (i, resp) s = (x, s1)"
    by (cases "verify_wallet_q (i, resp) s")
  have e: "qrequests s1 = qrequests s @ [GetLedger i]" "wallet_ids s1 = wallet_ids s"
      "qstats s1 = qstats s"
    using verify_wallet_q_effect [of i resp s] v by simp_all
  show ?case
  proof (cases x)
    case (Some y)
    then have "verify_loop_q (p # ps) s = (Some y, s1)" using p v by simp
    moreover have "qrequests s1 = qrequests s @ map (\<lambda>p. GetLedger (fst p)) (take 1 (p # ps))"
      using e p by simp
    ultimately show ?thesis using e by (metis snd_conv)
  next
    case None
    then have l: "verify_loop_q (p # ps) s = verify_loop_q ps s1" using p v by simp
    obtain n where n: "qrequests (snd (verify_loop_q ps s1)) =
        qrequests s1 @ map (\<lambda>p. GetLedger (fst p)) (take n ps)"
      using Cons.IH [of s1] by blast
    have "qrequests (snd (verify_loop_q ps s1)) =
        qrequests s @ map (\<lambda>p. GetLedger (fst p)) (take (Suc n) (p # ps))"
      using n e p by simp
    then show ?thesis using Cons.IH [of s1] e l by (metis (no_types, lifting))
  qed
qed

lemma verify_phase_q_result:
  "verify_phase_q v s =
     verify_loop_q
       (zip (sample_from (wallet_ids s) (min 5 (length (wallet_ids s))) (ve_sample v))
            (map (ve_ledger v) [0..<min 5 (length (wallet_ids s))])) s"
  by (simp add: verify_phase_q_def py_sample_def length_sample_from Let_def)

subsection \<open>The execution modes of \<^verbatim>\<open>quick_load_test.py\<close>\<close>

lemma sequential_measure:
  fixes m :: "qstate \<Rightarrow> nat"
  assumes step: "\<And>e s s1. record (fst (task e)) s = Inr s1 \<Longrightarrow> m s1 = m s + d e"
    and frame: "\<And>s rs. m (s\<lparr>qrequests := rs\<rparr>) = m s"
  shows "sequential task record es s = (None, s') \<Longrightarrow> m s' = m s + sum_list (map d es)"
proof (induction es arbitrary: s)
  case Nil
  then show ?case by simp
next
  case (Cons e es)
  obtain result sent where t: "task e = (result, sent)" by (cases "task e")
  show ?case
  proof (cases "record result (s\<lparr>qrequests := qrequests s @ sent\<rparr>)")
    case (Inl x)
    then show ?thesis using Cons.prems t by simp
  next
    case (Inr s1)
    then have "sequential task record es s1 = (None, s')" using Cons.prems t by simp
    then have "m s' = m s1 + sum_list (map d es)" by (rule Cons.IH)
    moreover have "m s1 = m s + d e"
      using step [of e "s\<lparr>qrequests := qrequests s @ sent\<rparr>" s1] Inr t frame by simp
    ultimately show ?thesis by simp
  qed
qed

lemma record_all_measure:
  fixes m :: "qstate \<Rightarrow> nat"
  assumes step: "\<And>e s s1. record (fst (task e)) s = Inr s1 \<Longrightarrow> m s1 = m s + d e"
  shows "record_all record (map fst (map task es)) s = (None, s') \<Longrightarrow>
    m s' = m s + sum_list (map d es)"
proof (induction es arbitrary: s)
  case Nil
  then show ?case by simp
next
  case (Cons e es)
  show ?case
  proof (cases "record (fst (task e)) s")
    case (Inl x)
    then show ?thesis using Cons.prems by simp
  next
    case (Inr s1)
    then have "record_all record (map fst (map task es)) s1 = (None, s')"
      using Cons.prems by simp
    then have "m s' = m s1 + sum_list (map d es)" by (rule Cons.IH)
    then show ?thesis using step [OF Inr] by simp
  qed
qed

lemma sequential_invariant:
  assumes step: "\<And>r s s1. record r s = Inr s1 \<Longrightarrow> f s1 = f s"
    and frame: "\<And>s rs. f (s\<lparr>qrequests := rs\<rparr>) = f s"
  shows "f (snd (sequential task record es s)) = f s"
proof (induction es arbitrary: s)
  case Nil
  show ?case by simp
next
  case (Cons e es)
  obtain result sent where t: "task e = (result, sent)" by (cases "task e")
  show ?case
  proof (cases "record result (s\<lparr>qrequests := qrequests s @ sent\<rparr>)")
    case (Inl x)
    then show ?thesis using t frame by simp
  next
    case (Inr s1)
    then show ?thesis using t Cons.IH [of s1] step [OF Inr] frame by simp
  qed
qed

lemma record_all_invariant:
  assumes step: "\<And>r s s1. record r s = Inr s1 \<Longrightarrow> f s1 = f s"
  shows "f (snd (record_all record rs s)) = f s"
proof (induction rs arbitrary: s)
  case Nil
  show ?case by simp
next
  case (Cons r rs)
  show ?case
  proof (cases "record r s")
    case (Inl x)
    then show ?thesis by simp
  next
    case (Inr s1)
    then show ?thesis using Cons.IH [of s1] step [OF Inr] by simp
  qed
qed

lemma parallel_invariant:
  assumes step: "\<And>r s s1. record r s = Inr s1 \<Longrightarrow> f s1 = f s"
    and frame: "\<And>s rs. f (s\<lparr>qrequests := rs\<rparr>) = f s"
  shows "f (snd (parallel workers task record es s)) = f s"
  using record_all_invariant [of "record" f, OF step] frame
  by (simp add: parallel_def Let_def)

lemma sequential_total:
  assumes "\<And>e s. \<exists>s1. record (fst (task e)) s = Inr s1"
  shows "fst (sequential task record es s) = None"
proof (induction es arbitrary: s)
  case Nil
  show ?case by simp
next
  case (Cons e es)
  obtain result sent where t: "task e = (result, sent)" by (cases "task e")
  obtain s1 where "record (fst (task e)) (s\<lparr>qrequests := qrequests s @ sent\<rparr>) = Inr s1"
    using assms by blast
  then show ?case using t Cons.IH [of s1] by simp
qed

lemma record_all_total:
  assumes "\<And>e s. \<exists>s1. record (fst (task e)) s = Inr s1"
  shows "fst (record_all record (map fst (map task es)) s) = None"
proof (induction es arbitrary: s)
  case Nil
  show ?case by simp
next
  case (Cons e es)
  obtain s1 where "record (fst (task e)) s = Inr s1" using assms by blast
  then show ?case using Cons.IH [of s1] by simp
qed

lemma sequential_requests:
  assumes step: "\<And>r s s1. record r s = Inr s1 \<Longrightarrow> qrequests s1 = qrequests s"
    and task: "\<And>e. list_all P (snd (task e))"
    and init: "list_all P (qrequests s)"
  shows "list_all P (qrequests (snd (sequential task record es s)))"
  using init
proof (induction es arbitrary: s)
  case Nil
  then show ?case by simp
next
  case (Cons e es)
  obtain result sent where t: "task e = (result, sent)" by (cases "task e")
  have sent: "list_all P sent" using task [of e] t by simp
  show ?case
  proof (cases "record result (s\<lparr>qrequests := qrequests s @ sent\<rparr>)")
    case (Inl x)
    then show ?thesis using t sent Cons.prems by simp
  next
    case (Inr s1)
    have "list_all P (qrequests s1)" using step [OF Inr] sent Cons.prems by simp
    then show ?thesis using t Inr Cons.IH [of s1] by simp
  qed
qed

lemma parallel_requests:
  assumes step: "\<And>r s s1. record r s = Inr s1 \<Longrightarrow> qrequests s1 = qrequests s"
    and task: "\<And>e. list_all P (snd (task e))"
    and init: "list_all P (qrequests s)"
  shows "list_all P (qrequests (snd (parallel workers task record es s)))"
proof (cases "workers \<le> 0")
  case True
  then show ?thesis using init by (simp add: parallel_def)
next
  case False
  have "list_all P (concat (map snd (map task es)))"
    using task by (induction es) simp_all
  then show ?thesis
    using False init record_all_invariant [of "record" qrequests, OF step]
    by (simp add: parallel_def Let_def)
qed

subsection \<open>Results and their tally in \<^verbatim>\<open>quick_load_test.py\<close>\<close>

lemma perform_operation_type:
  assumes "op_type = ''credit'' \<or> op_type = ''debit'' \<or> op_type = ''transfer''"
  shows "\<exists>r. fst (perform_operation op_type ids e) = Some r \<and> r_type r = op_type"
  using assms
  by (auto simp: perform_operation_def caught_def send_def Let_def
           split: sum.splits response.splits)

lemma operation_task_type:
  "\<exists>r. fst (operation_task ids e) = Some r \<and> r_type r = choose_operation (qo_operation e)"
  unfolding operation_task_def
  by (rule perform_operation_type) (rule choose_operation_cases)

lemma increment_total:
  assumes "k = ''wallets'' \<or> k = ''credit'' \<or> k = ''debit'' \<or> k = ''transfer''"
  shows "\<exists>st'. increment k ok st = Inr st'"
  using assms by (auto simp: increment_def stats_lookup_def)

lemma increment_effect:
  assumes "increment k ok st = Inr st'"
  shows "success (wallets st') + failed (wallets st') =
           success (wallets st) + failed (wallets st) + (if k = ''wallets'' then 1 else 0)
       \<and> success (credit st') + failed (credit st') =
           success (credit st) + failed (credit st) + (if k = ''credit'' then 1 else 0)
       \<and> success (debit st') + failed (debit st') =
           success (debit st) + failed (debit st) + (if k = ''debit'' then 1 else 0)
       \<and> success (transfer st') + failed (transfer st') =
           success (transfer st) + failed (transfer st) + (if k = ''transfer'' then 1 else 0)"
  using assms
  by (auto simp: increment_def stats_lookup_def stats_update_def split: if_splits)

lemma record_operation_frame:
  assumes "record_operation r s = Inr s1"
  shows "wallet_ids s1 = wallet_ids s \<and> qrequests s1 = qrequests s \<and> qreports s1 = qreports s"
  using assms by (auto simp: record_operation_def split: option.splits sum.splits)

lemma record_operation_total:
  "\<exists>s1. record_operation (fst (operation_task ids e)) s = Inr s1"
proof -
  obtain r where r: "fst (operation_task ids e) = Some r"
      "r_type r = choose_operation (qo_operation e)"
    using operation_task_type by blast
  have "r_type r = ''wallets'' \<or> r_type r = ''credit'' \<or> r_type r = ''debit'' \<or> r_type r = ''transfer''"
    using r(2) choose_operation_cases [of "qo_operation e"] by auto
  then obtain st' where "increment (r_type r) (r_success r) (qstats s) = Inr st'"
    using increment_total by blast
  then show ?thesis using r(1) by (simp add: record_operation_def)
qed

lemma record_operation_effect:
  assumes "record_operation (fst (operation_task ids e)) s = Inr s1"
  shows "success (wallets (qstats s1)) + failed (wallets (qstats s1)) =
           success (wallets (qstats s)) + failed (wallets (qstats s))
       \<and> success (credit (qstats s1)) + failed (credit (qstats s1)) =
           success (credit (qstats s)) + failed (credit (qstats s))
             + (if choose_operation (qo_operation e) = ''credit'' then 1 else 0)
       \<and> success (debit (qstats s1)) + failed (debit (qstats s1)) =
           success (debit (qstats s)) + failed (debit (qstats s))
             + (if choose_operation (qo_operation e) = ''debit'' then 1 else 0)
       \<and> success (transfer (qstats s1)) + failed (transfer (qstats s1)) =
           success (transfer (qstats s)) + failed (transfer (qstats s))
             + (if choose_operation (qo_operation e) = ''transfer'' then 1 else 0)"
proof -
  obtain r where r: "fst (operation_task ids e) = Some r"
      "r_type r = choose_operation (qo_operation e)"
    using operation_task_type by blast
  obtain st' where st: "increment (r_type r) (r_success r) (qstats s) = Inr st'" "qstats s1 = st'"
    using assms r(1) by (auto simp: record_operation_def split: sum.splits)
  have "r_type r \<noteq> ''wallets''"
    using r(2) choose_operation_cases [of "qo_operation e"] by auto
  then show ?thesis using increment_effect [OF st(1)] st(2) r(2) by simp
qed

lemma record_wallet_total: "j_id data \<noteq> None \<Longrightarrow> \<exists>s1. record_wallet (CreateSuccess data) s = Inr s1"
  by (auto simp: record_wallet_def increment_def stats_lookup_def)

lemma record_wallet_effect:
  assumes "record_wallet r s = Inr s1"
  shows "success (wallets (qstats s1)) + failed (wallets (qstats s1)) =
           success (wallets (qstats s)) + failed (wallets (qstats s)) + 1
       \<and> credit (qstats s1) = credit (qstats s)
       \<and> debit (qstats s1) = debit (qstats s)
       \<and> transfer (qstats s1) = transfer (qstats s)
       \<and> qrequests s1 = qrequests s \<and> qreports s1 = qreports s
       \<and> (\<exists>new. wallet_ids s1 = wallet_ids s @ new)"
  using assms
  by (auto simp: record_wallet_def increment_def stats_lookup_def stats_update_def
           split: create_result.splits option.splits)

lemma attempts_sum:
  "attempts kind (map f es) = sum_list (map (\<lambda>e. if choose_operation (f e) = kind then 1 else 0) es)"
  by (induction es) (simp_all add: attempts_def)

lemma attempts_mset: "mset xs = mset ys \<Longrightarrow> attempts kind xs = attempts kind ys"
proof -
  assume "mset xs = mset ys"
  then have "mset (filter (\<lambda>k. choose_operation k = kind) xs) =
             mset (filter (\<lambda>k. choose_operation k = kind) ys)"
    by simp
  then show ?thesis unfolding attempts_def by (rule mset_eq_length)
qed

lemma attempts_completion_order:
  "attempts kind (map f (completion_order g n)) = attempts kind (map f [0..<n])"
  by (rule attempts_mset) (simp add: completion_order_def)

lemma length_completion_order: "length (completion_order g n) = n"
  by (simp add: completion_order_def)

subsection \<open>The requests of a run of \<^verbatim>\<open>load_test_wallets.py\<close>\<close>

lemma main_cases:
  fixes w
  defines "s1 \<equiv> create_phase NUM_WALLETS (create_envs w) initial_state"
  defines "s2 \<equiv> operations_phase NUM_OPERATIONS (op_envs w) s1"
  shows "main w =
     (if wallets_created s1 = 0 then (SystemExit 1, s1)
      else (Returned,
            fold verify_wallet
              (zip (sample_from (created_wallets s2) (min 5 (length (created_wallets s2)))
                      (ve_sample (verify_envs w)))
                   (map (ve_ledger (verify_envs w)) [0..<min 5 (length (created_wallets s2))]))
              s2))"
  by (simp add: main_def Let_def verify_phase_result s1_def s2_def)

lemma create_iteration_requests:
  "requests (create_iteration e s) =
         requests s @ [PostWallet (ce_wallet_id e) (ce_owner_id e)
                         (PyFloat (py_round2 (py_uniform 100 10000 (ce_balance e))))]"
  by (auto simp: create_iteration_def create_wallet_def send_def Let_def
           split: response.splits option.splits)

lemma operation_iteration_requests:
  fixes e s
  defines "s' \<equiv> operation_iteration e s" and "op \<equiv> choose_operation (oe_operation e)"
  shows "\<exists>new. requests s' = requests s @ new \<and>
    (new = []
     \<or> (op = ''credit'' \<and> (\<exists>w\<in>set (created_wallets s).
          new = [PostCredit (w_id w) (PyFloat (py_round2 (py_uniform 10 1000 (oe_amount e))))]))
     \<or> (op \<noteq> ''credit'' \<and> (\<exists>w\<in>set (created_wallets s). new = [GetWallet (w_id w)]))
     \<or> (op = ''debit'' \<and> (\<exists>w\<in>set (created_wallets s). \<exists>bal b.
          oe_get e = Body bal \<and> float_balance bal = Inr b \<and> 10 < min (float_mul b (1 / 2)) 500 \<and>
          new = [GetWallet (w_id w),
                 PostDebit (w_id w)
                   (PyFloat (py_round2 (py_uniform 10 (min (float_mul b (1 / 2)) 500) (oe_amount e))))]))
     \<or> (op = ''transfer'' \<and> (\<exists>w\<in>set (created_wallets s). \<exists>w2\<in>set (created_wallets s). \<exists>bal b.
          w_id w2 \<noteq> w_id w \<and> oe_get e = Body bal \<and> float_balance bal = Inr b \<and>
          10 < min (float_mul b (double (3 / 10))) 300 \<and>
          new = [GetWallet (w_id w),
                 PostTransfer (w_id w) (w_id w2)
                   (PyFloat (py_round2 (py_uniform 10 (min (float_mul b (double (3 / 10))) 300) (oe_amount e))))])))"
proof -
  consider "op = ''credit''" | "op = ''debit''" | "op = ''transfer''"
    using choose_operation_cases [of "oe_operation e"] by (auto simp: op_def)
  then show ?thesis
  proof cases
    case 1
    obtain x s1 where b: "credit_branch e s = (x, s1)" by (cases "credit_branch e s")
    have "requests s' = requests s1"
      using 1 b
      by (cases x)
         (simp_all add: s'_def operation_iteration_def try_block_def op_def [symmetric]
            on_exception_requests)
    then show ?thesis using credit_branch_requests [OF b] 1 by auto
  next
    case 2
    obtain x s1 where b: "debit_branch e s = (x, s1)" by (cases "debit_branch e s")
    have "requests s' = requests s1"
      using 2 b
      by (cases x)
         (simp_all add: s'_def operation_iteration_def try_block_def op_def [symmetric]
            on_exception_requests)
    then show ?thesis using debit_branch_requests [OF b] 2 by auto
  next
    case 3
    obtain x s1 where b: "transfer_branch e s = (x, s1)" by (cases "transfer_branch e s")
    have "requests s' = requests s1"
      using 3 b
      by (cases x)
         (simp_all add: s'_def operation_iteration_def try_block_def op_def [symmetric]
            on_exception_requests)
    then show ?thesis using transfer_branch_requests [OF b] 3 by auto
  qed
qed

lemma fold_requests_invariant:
  assumes step: "\<And>e s. \<exists>new. requests (f e s) = requests s @ new \<and> list_all P new"
    and init: "list_all P (requests s)"
  shows "list_all P (requests (fold f es s))"
  using init
proof (induction es arbitrary: s)
  case Nil
  then show ?case by simp
next
  case (Cons e es)
  obtain new where "requests (f e s) = requests s @ new" "list_all P new"
    using step by blast
  then have "list_all P (requests (f e s))" using Cons.prems by simp
  then show ?case using Cons.IH by simp
qed

lemma create_iteration_issues:
  assumes "P (PostWallet (ce_wallet_id e) (ce_owner_id e)
                (PyFloat (py_round2 (py_uniform 100 10000 (ce_balance e)))))"
  shows "\<exists>new. requests (create_iteration e s) = requests s @ new \<and> list_all P new"
  using assms create_iteration_requests [of e s] by simp

lemma verify_wallet_issues:
  assumes "\<And>i. P (GetLedger i)"
  shows "\<exists>new. requests (verify_wallet p s) = requests s @ new \<and> list_all P new"
proof -
  obtain w resp where p: "p = (w, resp)" by (cases p)
  show ?thesis using verify_wallet_effect [of w resp s] assms by (simp add: p)
qed

lemma main_requests_invariant:
  assumes create: "\<And>i ow k. P (PostWallet i ow (PyFloat (py_round2 (py_uniform 100 10000 k))))"
    and ops: "\<And>e s. \<exists>new. requests (operation_iteration e s) = requests s @ new \<and> list_all P new"
    and reads: "\<And>i. P (GetLedger i)"
  shows "list_all P (requests (snd (main w)))"
proof -
  define s1 where "s1 = create_phase NUM_WALLETS (create_envs w) initial_state"
  define s2 where "s2 = operations_phase NUM_OPERATIONS (op_envs w) s1"
  have 1: "list_all P (requests s1)"
    unfolding s1_def create_phase_def
    by (rule fold_requests_invariant) (simp_all add: create_iteration_issues create initial_state_def)
  have 2: "list_all P (requests s2)"
    unfolding s2_def operations_phase_def
    by (rule fold_requests_invariant) (simp_all add: ops 1)
  have 3: "\<And>ps. list_all P (requests (fold verify_wallet ps s2))"
    by (rule fold_requests_invariant) (simp_all add: verify_wallet_issues reads 2)
  show ?thesis
    using 1 3 by (simp add: main_cases s1_def [symmetric] s2_def [symmetric])
qed

subsection \<open>The requests and counters of the phases of \<^verbatim>\<open>quick_load_test.py\<close>\<close>

lemma create_wallet_q_requests:
  "snd (create_wallet_q e) =
     [PostWallet (cq_wallet_id e) (cq_owner_id e) (PyInt (py_randint 100 5000 (cq_balance e)))]"
  by (simp add: create_wallet_q_def send_def Let_def split: response.splits)

lemma perform_credit_requests:
  "snd (perform_operation ''credit'' ids e) = [] \<or>
   (\<exists>w\<in>set ids. snd (perform_operation ''credit'' ids e) =
      [PostCredit w (PyInt (py_randint 10 500 (qo_amount e)))])"
  by (auto simp: perform_operation_def send_def Let_def split: sum.splits response.splits)
     (blast dest: py_choice_member)+

lemma perform_debit_requests:
  "snd (perform_operation ''debit'' ids e) = [] \<or>
   (\<exists>w\<in>set ids. snd (perform_operation ''debit'' ids e) =
      [PostDebit w (PyInt (py_randint 10 200 (qo_amount e)))])"
  by (auto simp: perform_operation_def send_def Let_def split: sum.splits response.splits)
     (blast dest: py_choice_member)+

lemma perform_transfer_requests:
  "snd (perform_operation ''transfer'' ids e) = [] \<or>
   (\<exists>w\<in>set ids. \<exists>w2\<in>set ids. w2 \<noteq> w \<and> snd (perform_operation ''transfer'' ids e) =
      [PostTransfer w w2 (PyInt (py_randint 10 300 (qo_amount e)))])"
proof -
  have pick2: "\<And>k w y. py_choice k (filter (\<lambda>v. v \<noteq> w) ids) = Inr y \<Longrightarrow> y \<in> set ids \<and> y \<noteq> w"
    by (drule py_choice_member) simp
  show ?thesis
    by (auto simp: perform_operation_def send_def Let_def split: sum.splits response.splits)
       (blast dest: pick2 py_choice_member)+
qed

lemma perform_other_requests:
  "op_type \<noteq> ''credit'' \<Longrightarrow> op_type \<noteq> ''debit'' \<Longrightarrow> op_type \<noteq> ''transfer'' \<Longrightarrow>
   perform_operation op_type ids e = (None, [])"
  by (simp add: perform_operation_def)

lemma perform_operation_requests:
  fixes op_type ids e
  defines "new \<equiv> snd (perform_operation op_type ids e)"
  shows "new = []
     \<or> (op_type = ''credit'' \<and> (\<exists>w\<in>set ids.
           new = [PostCredit w (PyInt (py_randint 10 500 (qo_amount e)))]))
     \<or> (op_type = ''debit'' \<and> (\<exists>w\<in>set ids.
           new = [PostDebit w (PyInt (py_randint 10 200 (qo_amount e)))]))
     \<or> (op_type = ''transfer'' \<and> (\<exists>w\<in>set ids. \<exists>w2\<in>set ids. w2 \<noteq> w \<and>
           new = [PostTransfer w w2 (PyInt (py_randint 10 300 (qo_amount e)))]))"
proof -
  consider "op_type = ''credit''" | "op_type = ''debit''" | "op_type = ''transfer''"
    | "op_type \<noteq> ''credit''" "op_type \<noteq> ''debit''" "op_type \<noteq> ''transfer''"
    by blast
  then show ?thesis
  proof cases
    case 1
    then show ?thesis using perform_credit_requests [of ids e] by (simp add: new_def)
  next
    case 2
    then show ?thesis using perform_debit_requests [of ids e] by (simp add: new_def)
  next
    case 3
    then show ?thesis using perform_transfer_requests [of ids e] by (simp add: new_def)
  next
    case 4
    then show ?thesis using perform_other_requests [of op_type ids e] by (simp add: new_def)
  qed
qed

lemma create_phase_q_counters:
  assumes "create_phase_q a env s = (None, s1)"
  shows "success (wallets (qstats s1)) + failed (wallets (qstats s1)) =
           success (wallets (qstats s)) + failed (wallets (qstats s)) + nat (arg_wallets a)"
proof -
  define m :: "qstate \<Rightarrow> nat" where "m = (\<lambda>s. success (wallets (qstats s)) + failed (wallets (qstats s)))"
  have step: "\<And>e s s1. record_wallet (fst (create_wallet_q e)) s = Inr s1 \<Longrightarrow> m s1 = m s + 1"
    using record_wallet_effect by (simp add: m_def)
  have frame: "\<And>s rs. m (s\<lparr>qrequests := rs\<rparr>) = m s" by (simp add: m_def)
  have "m s1 = m s + nat (arg_wallets a)"
  proof (cases "arg_fast a")
    case False
    then have "sequential create_wallet_q record_wallet (map env [0..<nat (arg_wallets a)]) s = (None, s1)"
      using assms by (simp add: create_phase_q_def Let_def)
    then have "m s1 = m s + sum_list (map (\<lambda>e. 1) (map env [0..<nat (arg_wallets a)]))"
      using step frame by (rule sequential_measure [rotated 2])
    then show ?thesis by (simp add: sum_list_triv comp_def)
  next
    case True
    define es where "es = map env (completion_order (\<lambda>i. cq_finished (env i)) (nat (arg_wallets a)))"
    have p: "parallel (arg_workers a) create_wallet_q record_wallet es s = (None, s1)"
      using assms True by (simp add: create_phase_q_def Let_def es_def)
    then have w: "\<not> arg_workers a \<le> 0" by (auto simp: parallel_def)
    then have "record_all record_wallet (map fst (map create_wallet_q es))
                 (s\<lparr>qrequests := qrequests s @ concat (map snd (map create_wallet_q es))\<rparr>) = (None, s1)"
      using p by (simp add: parallel_def Let_def)
    then have "m s1 = m (s\<lparr>qrequests := qrequests s @ concat (map snd (map create_wallet_q es))\<rparr>)
                 + sum_list (map (\<lambda>e. 1) es)"
      using step by (rule record_all_measure [rotated 1])
    then show ?thesis
      by (simp add: frame sum_list_triv comp_def es_def length_completion_order)
  qed
  then show ?thesis by (simp add: m_def)
qed

lemma record_wallet_frame:
  assumes "record_wallet r s = Inr s1"
  shows "(credit (qstats s1), debit (qstats s1), transfer (qstats s1), qreports s1) =
         (credit (qstats s), debit (qstats s), transfer (qstats s), qreports s)"
  using record_wallet_effect [OF assms] by simp

lemma create_phase_q_frame:
  "credit (qstats (snd (create_phase_q a env s))) = credit (qstats s)
   \<and> debit (qstats (snd (create_phase_q a env s))) = debit (qstats s)
   \<and> transfer (qstats (snd (create_phase_q a env s))) = transfer (qstats s)
   \<and> qreports (snd (create_phase_q a env s)) = qreports s"
proof -
  define f :: "qstate \<Rightarrow> counter \<times> counter \<times> counter \<times> report list"
    where "f = (\<lambda>s. (credit (qstats s), debit (qstats s), transfer (qstats s), qreports s))"
  have step: "\<And>r s s1. record_wallet r s = Inr s1 \<Longrightarrow> f s1 = f s"
    using record_wallet_frame by (simp add: f_def)
  have frame: "\<And>s rs. f (s\<lparr>qrequests := rs\<rparr>) = f s" by (simp add: f_def)
  have "f (snd (create_phase_q a env s)) = f s"
  proof (cases "arg_fast a")
    case True
    then show ?thesis
      using parallel_invariant [of record_wallet f, OF step frame]
      by (simp add: create_phase_q_def Let_def)
  next
    case False
    then show ?thesis
      using sequential_invariant [of record_wallet f, OF step frame]
      by (simp add: create_phase_q_def Let_def)
  qed
  then show ?thesis by (simp add: f_def)
qed

lemma operations_phase_q_frame:
  "wallet_ids (snd (operations_phase_q a env s)) = wallet_ids s
   \<and> qreports (snd (operations_phase_q a env s)) = qreports s"
proof -
  define f :: "qstate \<Rightarrow> ident list \<times> report list"
    where "f = (\<lambda>s. (wallet_ids s, qreports s))"
  have step: "\<And>r s s1. record_operation r s = Inr s1 \<Longrightarrow> f s1 = f s"
    using record_operation_frame by (simp add: f_def)
  have frame: "\<And>s rs. f (s\<lparr>qrequests := rs\<rparr>) = f s" by (simp add: f_def)
  have "f (snd (operations_phase_q a env s)) = f s"
  proof (cases "arg_fast a")
    case True
    then show ?thesis
      using parallel_invariant [of record_operation f, OF step frame]
      by (simp add: operations_phase_q_def Let_def)
  next
    case False
    then show ?thesis
      using sequential_invariant [of record_operation f, OF step frame]
      by (simp add: operations_phase_q_def Let_def)
  qed
  then show ?thesis by (simp add: f_def)
qed

lemma parallel_total:
  assumes "\<And>e s. \<exists>s1. record (fst (task e)) s = Inr s1"
  shows "fst (parallel workers task record es s) =
           (if workers \<le> 0 then Some ValueError else None)"
proof (cases "workers \<le> 0")
  case True
  then show ?thesis by (simp add: parallel_def)
next
  case False
  have "fst (record_all record (map fst (map task es)) s0) = None" for s0
    by (rule record_all_total) (rule assms)
  then show ?thesis using False unfolding parallel_def Let_def by (simp del: map_map)
qed

lemma operations_phase_q_total:
  "fst (operations_phase_q a env s) =
     (if arg_fast a \<and> arg_workers a \<le> 0 then Some ValueError else None)"
proof (cases "arg_fast a")
  case False
  then show ?thesis
    using sequential_total [of record_operation "operation_task (wallet_ids s)", OF record_operation_total]
    by (simp add: operations_phase_q_def Let_def)
next
  case True
  then show ?thesis
    using parallel_total [of record_operation "operation_task (wallet_ids s)", OF record_operation_total]
    by (simp add: operations_phase_q_def Let_def)
qed

lemma create_phase_q_workers:
  "create_phase_q a env s = (None, s1) \<Longrightarrow> \<not> (arg_fast a \<and> arg_workers a \<le> 0)"
  by (auto simp: create_phase_q_def Let_def parallel_def)

lemma sum_list_completion_order:
  fixes h :: "nat \<Rightarrow> nat"
  shows "sum_list (map h (completion_order g n)) = sum_list (map h [0..<n])"
proof -
  have "mset (map h (completion_order g n)) = mset (map h [0..<n])"
    by (simp add: completion_order_def)
  then have "sum_mset (mset (map h (completion_order g n))) = sum_mset (mset (map h [0..<n]))"
    by (rule arg_cong)
  then show ?thesis by (simp only: sum_mset_sum_list)
qed

lemma attempts_as_sum:
  "attempts kind picks = sum_list (map (\<lambda>k. if choose_operation k = kind then 1 else 0) picks)"
  by (induction picks) (simp_all add: attempts_def)

lemma operations_phase_q_measure:
  fixes m :: "qstate \<Rightarrow> nat"
  assumes step: "\<And>ids e s s1. record_operation (fst (operation_task ids e)) s = Inr s1 \<Longrightarrow>
                   m s1 = m s + d (qo_operation e)"
    and frame: "\<And>s rs. m (s\<lparr>qrequests := rs\<rparr>) = m s"
    and run: "operations_phase_q a env s = (None, s1)"
  shows "m s1 = m s + sum_list (map d (map (\<lambda>i. qo_operation (env i)) [0..<nat (arg_operations a)]))"
proof (cases "arg_fast a")
  case False
  then have "sequential (operation_task (wallet_ids s)) record_operation
               (map env [0..<nat (arg_operations a)]) s = (None, s1)"
    using run by (simp add: operations_phase_q_def Let_def)
  then have "m s1 = m s + sum_list (map (\<lambda>e. d (qo_operation e)) (map env [0..<nat (arg_operations a)]))"
    using step frame by (rule sequential_measure [rotated 2])
  then show ?thesis by (simp add: comp_def)
next
  case True
  define es where "es = map env (completion_order (\<lambda>i. qo_finished (env i)) (nat (arg_operations a)))"
  define task where "task = operation_task (wallet_ids s)"
  have p: "parallel (arg_workers a) task record_operation es s = (None, s1)"
    using run True by (simp add: operations_phase_q_def Let_def es_def task_def)
  then have w: "\<not> arg_workers a \<le> 0" by (auto simp: parallel_def)
  then have "record_all record_operation (map fst (map task es))
               (s\<lparr>qrequests := qrequests s @ concat (map snd (map task es))\<rparr>) = (None, s1)"
    using p by (simp add: parallel_def Let_def)
  then have "m s1 = m (s\<lparr>qrequests := qrequests s @ concat (map snd (map task es))\<rparr>)
               + sum_list (map (\<lambda>e. d (qo_operation e)) es)"
    using step unfolding task_def by (rule record_all_measure [rotated 1])
  moreover have "sum_list (map (\<lambda>e. d (qo_operation e)) es) =
      sum_list (map d (map (\<lambda>i. qo_operation (env i)) (completion_order (\<lambda>i. qo_finished (env i)) (nat (arg_operations a)))))"
    by (simp add: es_def comp_def)
  ultimately show ?thesis by (simp add: frame sum_list_completion_order)
qed

lemma operations_phase_q_counters:
  fixes a env s
  defines "picks \<equiv> map (\<lambda>i. qo_operation (env i)) [0..<nat (arg_operations a)]"
  assumes run: "operations_phase_q a env s = (None, s1)"
  shows "success (wallets (qstats s1)) + failed (wallets (qstats s1)) =
           success (wallets (qstats s)) + failed (wallets (qstats s))
       \<and> success (credit (qstats s1)) + failed (credit (qstats s1)) =
           success (credit (qstats s)) + failed (credit (qstats s)) + attempts ''credit'' picks
       \<and> success (debit (qstats s1)) + failed (debit (qstats s1)) =
           success (debit (qstats s)) + failed (debit (qstats s)) + attempts ''debit'' picks
       \<and> success (transfer (qstats s1)) + failed (transfer (qstats s1)) =
           success (transfer (qstats s)) + failed (transfer (qstats s)) + attempts ''transfer'' picks"
proof -
  have w: "success (wallets (qstats s1)) + failed (wallets (qstats s1)) =
           success (wallets (qstats s)) + failed (wallets (qstats s)) + sum_list (map (\<lambda>k. 0) picks)"
    unfolding picks_def
    by (rule operations_phase_q_measure [where m = "\<lambda>s. success (wallets (qstats s)) + failed (wallets (qstats s))", OF _ _ run])
       (simp_all add: record_operation_effect)
  have c: "success (credit (qstats s1)) + failed (credit (qstats s1)) =
           success (credit (qstats s)) + failed (credit (qstats s))
             + sum_list (map (\<lambda>k. if choose_operation k = ''credit'' then 1 else 0) picks)"
    unfolding picks_def
    by (rule operations_phase_q_measure [where m = "\<lambda>s. success (credit (qstats s)) + failed (credit (qstats s))", OF _ _ run])
       (simp_all add: record_operation_effect)
  have d: "success (debit (qstats s1)) + failed (debit (qstats s1)) =
           success (debit (qstats s)) + failed (debit (qstats s))
             + sum_list (map (\<lambda>k. if choose_operation k = ''debit'' then 1 else 0) picks)"
    unfolding picks_def
    by (rule operations_phase_q_measure [where m = "\<lambda>s. success (debit (qstats s)) + failed (debit (qstats s))", OF _ _ run])
       (simp_all add: record_operation_effect)
  have t: "success (transfer (qstats s1)) + failed (transfer (qstats s1)) =
           success (transfer (qstats s)) + failed (transfer (qstats s))
             + sum_list (map (\<lambda>k. if choose_operation k = ''transfer'' then 1 else 0) picks)"
    unfolding picks_def
    by (rule operations_phase_q_measure [where m = "\<lambda>s. success (transfer (qstats s)) + failed (transfer (qstats s))", OF _ _ run])
       (simp_all add: record_operation_effect)
  show ?thesis using w c d t by (simp add: attempts_as_sum)
qed

subsection \<open>How \<^verbatim>\<open>main\<close> ends\<close>

lemma create_phase_Suc: "create_phase (Suc n) env s = create_iteration (env n) (create_phase n env s)"
  by (simp add: create_phase_def)

lemma create_iteration_created:
  assumes "ce_response e = Body j" and "j_id j \<noteq> None" and "j_ownerId j \<noteq> None"
    and "j_balance j \<noteq> None"
  shows "wallets_created (create_iteration e s) = wallets_created s + 1"
  using assms by (auto simp: create_iteration_def create_wallet_def send_def Let_def)

lemma main_returns:
  assumes "wallets_created (create_phase NUM_WALLETS (create_envs w) initial_state) \<noteq> 0"
  shows "fst (main w) = Returned"
  using assms by (simp add: main_cases)

lemma main_q_cases:
  "fst (main_q a w) = Returned \<Longrightarrow>
     \<exists>s1. create_phase_q a (create_envs_q w) initial_qstate = (None, s1) \<and>
       (if wallet_ids s1 = [] then snd (main_q a w) = s1
        else \<exists>s2. operations_phase_q a (op_envs_q w) s1 = (None, s2) \<and>
               verify_phase_q (verify_envs_q w) s2 = (None, snd (main_q a w)))"
  by (auto simp: main_q_def split: prod.splits option.splits sum.splits if_splits)

lemma verify_phase_q_frame:
  "qstats (snd (verify_phase_q v s)) = qstats s
   \<and> wallet_ids (snd (verify_phase_q v s)) = wallet_ids s"
  using verify_loop_q_effect by (simp add: verify_phase_q_result)

lemma main_exits_without_wallets:
  assumes "wallets_created (create_phase NUM_WALLETS (create_envs w) initial_state) = 0"
  shows "main w = (SystemExit 1, create_phase NUM_WALLETS (create_envs w) initial_state)
         \<and> exit_code (fst (main w)) = 1"
  using assms by (simp add: main_cases exit_code_def)

lemma main_q_returns_without_wallets:
  assumes "create_phase_q a (create_envs_q w) initial_qstate = (None, s1)" and "wallet_ids s1 = []"
  shows "main_q a w = (Returned, s1) \<and> exit_code_q (fst (main_q a w)) = 0"
  using assms by (simp add: main_q_def)

subsection \<open>The population only grows\<close>

lemma sequential_appends:
  assumes step: "\<And>r s s1. record r s = Inr s1 \<Longrightarrow> \<exists>new. f s1 = f s @ new"
    and frame: "\<And>s rs. f (s\<lparr>qrequests := rs\<rparr>) = f s"
  shows "\<exists>new. f (snd (sequential task record es s)) = f s @ new"
proof (induction es arbitrary: s)
  case Nil
  show ?case by simp
next
  case (Cons e es)
  obtain result sent where t: "task e = (result, sent)" by (cases "task e")
  show ?case
  proof (cases "record result (s\<lparr>qrequests := qrequests s @ sent\<rparr>)")
    case (Inl x)
    then show ?thesis using t frame by simp
  next
    case (Inr s1)
    obtain new1 where "f s1 = f s @ new1" using step [OF Inr] frame by auto
    moreover obtain new2 where "f (snd (sequential task record es s1)) = f s1 @ new2"
      using Cons.IH by blast
    ultimately show ?thesis using t Inr by simp
  qed
qed

lemma record_all_appends:
  assumes step: "\<And>r s s1. record r s = Inr s1 \<Longrightarrow> \<exists>new. f s1 = f s @ new"
  shows "\<exists>new. f (snd (record_all record rs s)) = f s @ new"
proof (induction rs arbitrary: s)
  case Nil
  show ?case by simp
next
  case (Cons r rs)
  show ?case
  proof (cases "record r s")
    case (Inl x)
    then show ?thesis by simp
  next
    case (Inr s1)
    obtain new1 where "f s1 = f s @ new1" using step [OF Inr] by auto
    moreover obtain new2 where "f (snd (record_all record rs s1)) = f s1 @ new2"
      using Cons.IH by blast
    ultimately show ?thesis using Inr by simp
  qed
qed

lemma parallel_appends:
  assumes step: "\<And>r s s1. record r s = Inr s1 \<Longrightarrow> \<exists>new. f s1 = f s @ new"
    and frame: "\<And>s rs. f (s\<lparr>qrequests := rs\<rparr>) = f s"
  shows "\<exists>new. f (snd (parallel workers task record es s)) = f s @ new"
proof (cases "workers \<le> 0")
  case True
  then show ?thesis by (simp add: parallel_def)
next
  case False
  define s0 where "s0 = s\<lparr>qrequests := qrequests s @ concat (map snd (map task es))\<rparr>"
  have "\<exists>new. f (snd (record_all record (map fst (map task es)) s0)) = f s0 @ new"
    by (rule record_all_appends) (rule step)
  then obtain new where "f (snd (record_all record (map fst (map task es)) s0)) = f s0 @ new"
    by blast
  moreover have "f s0 = f s" by (simp add: s0_def frame)
  moreover have "parallel workers task record es s = record_all record (map fst (map task es)) s0"
    using False by (simp add: parallel_def Let_def s0_def)
  ultimately show ?thesis by simp
qed

lemma create_phase_q_appends:
  "\<exists>new. wallet_ids (snd (create_phase_q a env s)) = wallet_ids s @ new"
proof (cases "arg_fast a")
  case False
  have "\<exists>new. wallet_ids (snd (sequential create_wallet_q record_wallet es s)) = wallet_ids s @ new"
    for es
    by (rule sequential_appends) (use record_wallet_effect in auto)
  then show ?thesis using False by (simp add: create_phase_q_def Let_def)
next
  case True
  have "\<exists>new. wallet_ids (snd (parallel k create_wallet_q record_wallet es s)) = wallet_ids s @ new"
    for es k
    by (rule parallel_appends) (use record_wallet_effect in auto)
  then show ?thesis using True by (simp add: create_phase_q_def Let_def)
qed

subsection \<open>Zipping a sample with the answers\<close>

lemma map_zip_upt:
  assumes "length xs = n"
  shows "map (\<lambda>p. g (fst p) (snd p)) (zip xs (map h [0..<n])) = map (\<lambda>i. g (xs ! i) (h i)) [0..<n]"
  using assms by (intro nth_equalityI) simp_all

lemma map_fst_zip_upt:
  assumes "length xs = n"
  shows "map (\<lambda>p. g (fst p)) (zip xs (map h [0..<n])) = map g xs"
  using assms by (intro nth_equalityI) simp_all

lemma distinct_map_submultiset:
  assumes "mset xs \<subseteq># mset ys" and "distinct (map f ys)"
  shows "distinct (map f xs)"
proof -
  have "image_mset f (mset xs) \<subseteq># image_mset f (mset ys)"
    using assms(1) by (rule image_mset_subseteq_mono)
  then have "mset (map f xs) \<subseteq># mset (map f ys)" by simp
  then show ?thesis using assms(2) by (rule distinct_submultiset)
qed

subsection \<open>The requests of a run of \<^verbatim>\<open>quick_load_test.py\<close>\<close>

lemma create_phase_q_requests:
  assumes "\<And>e. list_all P (snd (create_wallet_q e))" and "list_all P (qrequests s)"
  shows "list_all P (qrequests (snd (create_phase_q a env s)))"
proof -
  have step: "\<And>r s s1. record_wallet r s = Inr s1 \<Longrightarrow> qrequests s1 = qrequests s"
    using record_wallet_effect by blast
  show ?thesis
  proof (cases "arg_fast a")
    case True
    then show ?thesis
      using parallel_requests [of record_wallet P create_wallet_q s, OF step assms]
      by (simp add: create_phase_q_def Let_def)
  next
    case False
    then show ?thesis
      using sequential_requests [of record_wallet P create_wallet_q s, OF step assms]
      by (simp add: create_phase_q_def Let_def)
  qed
qed

lemma operations_phase_q_requests:
  assumes "\<And>ids e. list_all P (snd (operation_task ids e))" and "list_all P (qrequests s)"
  shows "list_all P (qrequests (snd (operations_phase_q a env s)))"
proof -
  have step: "\<And>r s s1. record_operation r s = Inr s1 \<Longrightarrow> qrequests s1 = qrequests s"
    using record_operation_frame by blast
  show ?thesis
  proof (cases "arg_fast a")
    case True
    then show ?thesis
      using parallel_requests [of record_operation P "operation_task (wallet_ids s)" s,
              OF step assms]
      by (simp add: operations_phase_q_def Let_def)
  next
    case False
    then show ?thesis
      using sequential_requests [of record_operation P "operation_task (wallet_ids s)" s,
              OF step assms]
      by (simp add: operations_phase_q_def Let_def)
  qed
qed

lemma verify_phase_q_requests:
  assumes "\<And>i. P (GetLedger i)" and "list_all P (qrequests s)"
  shows "list_all P (qrequests (snd (verify_phase_q v s)))"
proof -
  have reads: "list_all P (map (\<lambda>p. GetLedger (fst p)) ps)"
    for ps :: "(ident \<times> ledger_json response) list"
    using assms(1) by (induction ps) simp_all
  define ps where "ps = zip (sample_from (wallet_ids s) (min 5 (length (wallet_ids s))) (ve_sample v))
            (map (ve_ledger v) [0..<min 5 (length (wallet_ids s))])"
  obtain n where "qrequests (snd (verify_loop_q ps s)) =
      qrequests s @ map (\<lambda>p. GetLedger (fst p)) (take n ps)"
    using verify_loop_q_effect [of ps s] by blast
  then show ?thesis
    using assms(2) reads [of "take n ps"] by (simp add: verify_phase_q_result ps_def)
qed

lemma main_q_requests_invariant:
  assumes create: "\<And>e. list_all P (snd (create_wallet_q e))"
    and ops: "\<And>ids e. list_all P (snd (operation_task ids e))"
    and reads: "\<And>i. P (GetLedger i)"
  shows "list_all P (qrequests (snd (main_q a w)))"
proof -
  obtain x s1 where c: "create_phase_q a (create_envs_q w) initial_qstate = (x, s1)"
    by (cases "create_phase_q a (create_envs_q w) initial_qstate")
  have 1: "list_all P (qrequests s1)"
    using create_phase_q_requests [of P initial_qstate a "create_envs_q w", OF create] c
    by (simp add: initial_qstate_def)
  obtain y s2 where p: "operations_phase_q a (op_envs_q w) s1 = (y, s2)"
    by (cases "operations_phase_q a (op_envs_q w) s1")
  have 2: "list_all P (qrequests s2)"
    using operations_phase_q_requests [of P s1 a "op_envs_q w", OF ops 1] p by simp
  have 3: "list_all P (qrequests (snd (verify_phase_q (verify_envs_q w) s2)))"
    using reads 2 by (rule verify_phase_q_requests)
  show ?thesis
    using c p 1 2 3
    by (auto simp: main_q_def split: option.splits prod.splits)
qed

subsection \<open>Operations that are not sent\<close>

lemma short_population_transfer:
  assumes "choose_operation (oe_operation e) = ''transfer''" and "length (created_wallets s) < 2"
  shows "operation_iteration e s = s\<lparr>transfers_failed := transfers_failed s + 1\<rparr>"
  using assms by (simp add: operation_iteration_def try_block_def transfer_branch_def)

lemma short_population_transfer_q:
  assumes "length ids < 2"
  shows "perform_operation ''transfer'' ids e =
    (Some \<lparr>r_success = False, r_type = ''transfer'', r_amount = None,
           r_error = Some ''Not enough wallets''\<rparr>, [])"
  using assms by (simp add: perform_operation_def)

lemma record_failed_transfer:
  "record_operation (Some \<lparr>r_success = False, r_type = ''transfer'', r_amount = a, r_error = x\<rparr>) s
     = Inr (s\<lparr>qstats := (qstats s)\<lparr>transfer :=
              (transfer (qstats s))\<lparr>failed := failed (transfer (qstats s)) + 1\<rparr>\<rparr>\<rparr>)"
  by (simp add: record_operation_def increment_def stats_lookup_def stats_update_def)

lemma skipped_debit_counters:
  assumes "choose_operation (oe_operation e) = ''debit''"
    and "oe_get e = Body bal" and "float_balance bal = Inr b" and "\<not> 10 < min (float_mul b (1 / 2)) 500"
  shows "debits_success (operation_iteration e s) = debits_success s
    \<and> debits_failed (operation_iteration e s) = debits_failed s + 1"
  using assms
  by (auto simp: operation_iteration_def try_block_def debit_branch_def get_wallet_def send_def
        on_exception_def Let_def split: sum.splits)

lemma skipped_transfer_counters:
  assumes "choose_operation (oe_operation e) = ''transfer''"
    and "oe_get e = Body bal" and "float_balance bal = Inr b" and "\<not> 10 < min (float_mul b (double (3 / 10))) 300"
  shows "transfers_success (operation_iteration e s) = transfers_success s
    \<and> transfers_failed (operation_iteration e s) = transfers_failed s + 1"
  using assms
  by (auto simp: operation_iteration_def try_block_def transfer_branch_def get_wallet_def send_def
        on_exception_def Let_def split: sum.splits)

subsection \<open>Amounts\<close>

lemma floor_numeral_fraction: "\<lfloor>numeral a / numeral b :: rat\<rfloor> = numeral a div numeral b"
  by (metis floor_divide_of_int_eq of_int_numeral)

lemma rounded_draw_lower:
  assumes "10 < c"
  shows "10 \<le> py_uniform 10 c k \<and> 10 \<le> py_round2 (py_uniform 10 c k)"
proof -
  have u: "10 \<le> py_uniform 10 c k"
    using py_uniform_lower [of 10 c k] assms by (simp add: double_10)
  have "of_int 10 \<le> py_round2 (py_uniform 10 c k)"
    by (rule py_round2_lower) (use u in simp)
  then show ?thesis using u by simp
qed

lemma debit_request_shape:
  assumes "PostDebit wid amt \<in> set (issued s (operation_iteration e s))"
  shows "\<exists>bal b. oe_get e = Body bal \<and> float_balance bal = Inr b \<and> 10 < min (float_mul b (1 / 2)) 500
    \<and> issued s (operation_iteration e s) = [GetWallet wid, PostDebit wid amt]
    \<and> amt = PyFloat (py_round2 (py_uniform 10 (min (float_mul b (1 / 2)) 500) (oe_amount e)))"
  using operation_iteration_requests [of e s] assms
  by (auto simp: issued_def)

lemma transfer_request_shape:
  assumes "PostTransfer wid dst amt \<in> set (issued s (operation_iteration e s))"
  shows "\<exists>bal b. oe_get e = Body bal \<and> float_balance bal = Inr b \<and> 10 < min (float_mul b (double (3 / 10))) 300
    \<and> issued s (operation_iteration e s) = [GetWallet wid, PostTransfer wid dst amt]
    \<and> amt = PyFloat (py_round2 (py_uniform 10 (min (float_mul b (double (3 / 10))) 300) (oe_amount e)))"
  using operation_iteration_requests [of e s] assms
  by (auto simp: issued_def)

lemma amounts_all:
  "list_all Q (amounts rs) = list_all (\<lambda>r. case amount_of r of None \<Rightarrow> True | Some v \<Rightarrow> Q v) rs"
  by (induction rs) (simp_all add: amounts_def split: option.splits)

lemma rounded_draw_cents:
  assumes "of_int n \<le> double a" and "0 < n" and "0 \<le> a" and "a \<le> c"
  shows "positive_cents (PyFloat (py_round2 (py_uniform a c k)))"
proof -
  have "double a \<le> py_uniform a c k" using assms(3,4) by (rule py_uniform_lower)
  then have "of_int n \<le> py_uniform a c k" using assms(1) by simp
  then have "of_int n \<le> py_round2 (py_uniform a c k)" by (rule py_round2_lower)
  moreover have "(0::rat) < of_int n" using assms(2) by simp
  ultimately have "0 < py_round2 (py_uniform a c k)" by simp
  then show ?thesis using py_round2_cents by simp
qed

lemma positive_integer_PyInt: "0 < k \<Longrightarrow> positive_integer (PyInt k)"
  by (simp add: positive_integer_def is_integral_def)


subsection \<open>Float operations that are exact\<close>

lemma powi_le_exponent: "(2 powi a :: rat) \<le> 2 powi b \<Longrightarrow> a \<le> b"
proof (rule ccontr)
  assume le: "(2 powi a :: rat) \<le> 2 powi b" and "\<not> a \<le> b"
  then have "b + 1 \<le> a" by simp
  then have "(2 powi (b + 1) :: rat) \<le> 2 powi a" by (intro power_int_increasing) simp_all
  moreover have "(2 powi b :: rat) < 2 powi (b + 1)" by (simp add: power_int_add)
  ultimately show False using le by simp
qed

lemma round_half_even_of_int: "round_half_even (of_int z) = z"
  by (simp add: round_half_even_def)

lemma double_significand:
  assumes "0 < x"
  shows "\<exists>m. double x = of_int m * 2 powi (exponent x - 52) \<and> 0 < m \<and> m \<le> 2 ^ 53"
proof -
  define e where "e = exponent x"
  define ulp :: rat where "ulp = 2 powi (e - 52)"
  have u: "0 < ulp" by (simp add: ulp_def)
  have d: "double x = of_int (round_half_even (x / ulp)) * ulp"
    using assms by (simp add: double_def Let_def e_def ulp_def)
  have lo: "2 powi e = 2 ^ 52 * ulp" and hi: "2 powi (e + 1) = 2 ^ 53 * ulp"
    by (simp_all add: ulp_def power_int_diff power_int_add)
  have "2 ^ 52 * ulp \<le> x" and "x \<le> 2 ^ 53 * ulp"
    using exponent_bounds [OF assms] lo hi by (simp_all add: e_def)
  then have b: "of_int (2 ^ 52) \<le> x / ulp" "x / ulp \<le> of_int (2 ^ 53)"
    using u by (simp_all add: pos_le_divide_eq pos_divide_le_eq)
  have "2 ^ 52 \<le> round_half_even (x / ulp)" using b(1) by (rule round_half_even_lower)
  moreover have "round_half_even (x / ulp) \<le> 2 ^ 53"
    using b(2) by (rule round_half_even_upper_int)
  ultimately show ?thesis using d by (intro exI [of _ "round_half_even (x / ulp)"]) (simp add: ulp_def e_def)
qed

lemma double_exact:
  assumes "0 < n" and "n \<le> 2 ^ 53"
  shows "double (of_int n * 2 powi j) = of_int n * 2 powi j"
proof -
  define x :: rat where "x = of_int n * 2 powi j"
  have x: "0 < x" using assms(1) by (simp add: x_def)
  define e where "e = exponent x"
  define ulp :: rat where "ulp = 2 powi (e - 52)"
  have u: "0 < ulp" by (simp add: ulp_def)
  have eb: "2 powi e \<le> x" "x < 2 powi (e + 1)"
    using exponent_bounds [OF x] by (simp_all add: e_def)
  have "(of_int n :: rat) \<le> of_int (2 ^ 53)" using assms(2) by (simp only: of_int_le_iff)
  then have "x \<le> 2 ^ 53 * 2 powi j" by (simp add: x_def)
  also have "(2 ^ 53 * 2 powi j :: rat) = 2 powi (53 + j)" by (simp add: power_int_add)
  finally have "(2 powi e :: rat) \<le> 2 powi (53 + j)" using eb(1) by simp
  then have ej: "e \<le> 53 + j" by (rule powi_le_exponent)
  have d: "double x = of_int (round_half_even (x / ulp)) * ulp"
    using x by (simp add: double_def Let_def e_def ulp_def)
  have "\<exists>z. x / ulp = of_int z"
  proof (cases "e = 53 + j")
    case True
    then have "(2 ^ 53 * 2 powi j :: rat) \<le> of_int n * 2 powi j"
      using eb(1) by (simp add: x_def power_int_add)
    then have "(of_int (2 ^ 53) :: rat) \<le> of_int n" by simp
    then have "2 ^ 53 \<le> n" by (simp only: of_int_le_iff)
    then have n: "n = 2 ^ 53" using assms(2) by simp
    have "ulp = 2 * 2 powi j" using True by (simp add: ulp_def power_int_add)
    then have "x / ulp = of_int (2 ^ 52)" by (simp add: x_def n)
    then show ?thesis by blast
  next
    case False
    then have k: "0 \<le> j - e + 52" using ej by simp
    have "x / ulp = of_int n * 2 powi (j - (e - 52))"
      by (simp add: x_def ulp_def power_int_diff)
    also have "(2 powi (j - (e - 52)) :: rat) = 2 ^ nat (j - e + 52)"
      using k by (simp add: power_int_def algebra_simps)
    finally have "x / ulp = of_int (n * 2 ^ nat (j - e + 52))" by simp
    then show ?thesis by blast
  qed
  then obtain z where z: "x / ulp = of_int z" by blast
  have "double x = of_int z * ulp" by (simp add: d z round_half_even_of_int)
  also have "\<dots> = x" using z u by (simp add: field_simps)
  finally show ?thesis by (simp add: x_def)
qed

lemma double_idem:
  assumes "0 < x"
  shows "double (double x) = double x"
proof -
  obtain m where m: "double x = of_int m * 2 powi (exponent x - 52)" "0 < m" "m \<le> 2 ^ 53"
    using double_significand [OF assms] by blast
  show ?thesis unfolding m(1) using m(2,3) by (rule double_exact)
qed

lemma double_nonpos: "x \<le> 0 \<Longrightarrow> double x \<le> 0"
proof (cases "x = 0")
  case True
  then show ?thesis by (simp add: double_def)
next
  case False
  assume "x \<le> 0"
  define ulp :: rat where "ulp = 2 powi (exponent \<bar>x\<bar> - 52)"
  have u: "0 < ulp" by (simp add: ulp_def)
  have "x / ulp \<le> of_int 0" using \<open>x \<le> 0\<close> u by (simp add: divide_le_0_iff)
  then have "round_half_even (x / ulp) \<le> 0" by (rule round_half_even_upper_int)
  then have "(of_int (round_half_even (x / ulp)) :: rat) \<le> 0" by simp
  then have "of_int (round_half_even (x / ulp)) * ulp \<le> 0"
    using u by (simp add: mult_le_0_iff)
  then show ?thesis using False by (simp add: double_def Let_def ulp_def)
qed

lemma float_sub_exact:
  assumes "double c = c" and "10 < c" and "c \<le> 500"
  shows "float_sub c 10 = c - 10"
proof -
  have c: "0 < c" using assms(2) by simp
  define e where "e = exponent c"
  obtain m where m: "c = of_int m * 2 powi (e - 52)" "0 < m" "m \<le> 2 ^ 53"
    using double_significand [OF c] assms(1) by (auto simp: e_def)
  have "2 powi e \<le> c" using exponent_bounds [OF c] by (simp add: e_def)
  then have "(2 powi e :: rat) \<le> 2 powi 9" using assms(3) by simp
  then have e: "e \<le> 9" by (rule powi_le_exponent)
  define t :: int where "t = 10 * 2 ^ nat (52 - e)"
  have "(2 powi (e - 52) :: rat) * 2 ^ nat (52 - e) = 2 powi (e - 52) * 2 powi (52 - e)"
    using e by (simp add: power_int_def)
  also have "\<dots> = 1" by (simp add: power_int_add [symmetric])
  finally have "(2 ^ nat (52 - e) :: rat) * 2 powi (e - 52) = 1" by (simp add: mult.commute)
  then have "of_int t * 2 powi (e - 52) = (10 :: rat)" by (simp add: t_def)
  then have s: "c - 10 = of_int (m - t) * 2 powi (e - 52)"
    using m(1) by (simp add: algebra_simps)
  have "0 < of_int (m - t) * (2 powi (e - 52) :: rat)" using s assms(2) by simp
  moreover have "(0 :: rat) < 2 powi (e - 52)" by simp
  ultimately have "(0 :: rat) < of_int (m - t)" by (simp only: zero_less_mult_pos2)
  then have p: "0 < m - t" by simp
  have "0 \<le> t" by (simp add: t_def)
  then have q: "m - t \<le> 2 ^ 53" using m(3) by simp
  show ?thesis unfolding float_sub_def s using p q by (rule double_exact)
qed

lemma py_uniform_upper:
  assumes "double c = c" and "10 < c" and "c \<le> 500"
  shows "py_uniform 10 c k \<le> c"
proof -
  have r: "0 \<le> py_random k" "py_random k \<le> 1" using py_random_bounds [of k] by simp_all
  have d: "float_sub c 10 = c - 10" using assms by (rule float_sub_exact)
  have d0: "0 \<le> c - 10" using assms(2) by simp
  have "(c - 10) * py_random k \<le> (c - 10) * 1" using r(2) d0 by (rule mult_left_mono)
  moreover have "0 \<le> (c - 10) * py_random k" using d0 r(1) by simp
  ultimately have "double ((c - 10) * py_random k) \<le> double (c - 10)"
    by (intro double_mono) simp_all
  also have "double (c - 10) = c - 10" using d by (simp add: float_sub_def)
  finally have p: "float_mul (c - 10) (py_random k) \<le> c - 10" by (simp add: float_mul_def)
  have "0 \<le> float_mul (c - 10) (py_random k)"
    using d0 r(1) by (simp add: float_mul_def double_nonneg)
  then have "double (10 + float_mul (c - 10) (py_random k)) \<le> double c"
    using p by (intro double_mono) simp_all
  then show ?thesis by (simp add: py_uniform_def float_add_def d assms(1))
qed

lemma ceiling_is_double:
  assumes "double cap = cap" and "0 < min (float_mul b h) cap"
  shows "double (min (float_mul b h) cap) = min (float_mul b h) cap"
proof (cases "float_mul b h \<le> cap")
  case True
  then have "0 < double (b * h)" using assms(2) by (simp add: float_mul_def)
  then have "0 < b * h" using double_nonpos [of "b * h"] by (cases "0 < b * h") simp_all
  then have "double (double (b * h)) = double (b * h)" by (rule double_idem)
  then show ?thesis using True by (simp add: float_mul_def)
next
  case False
  then show ?thesis using assms(1) by simp
qed

lemma double_caps: "double 500 = 500" "double 300 = 300"
  by code_simp+

lemma rounded_draw_bounds:
  assumes "double cap = cap" and "cap \<le> 500" and "10 < min (float_mul b h) cap"
  shows "10 \<le> py_uniform 10 (min (float_mul b h) cap) k
       \<and> py_uniform 10 (min (float_mul b h) cap) k \<le> min (float_mul b h) cap
       \<and> 10 \<le> py_round2 (py_uniform 10 (min (float_mul b h) cap) k)"
proof -
  have "double (min (float_mul b h) cap) = min (float_mul b h) cap"
    using assms(1,3) by (intro ceiling_is_double) simp_all
  moreover have "min (float_mul b h) cap \<le> 500" using assms(2) by simp
  ultimately have "py_uniform 10 (min (float_mul b h) cap) k \<le> min (float_mul b h) cap"
    using assms(3) by (intro py_uniform_upper)
  then show ?thesis using rounded_draw_lower [OF assms(3), of k] by simp
qed

subsection \<open>Runs in which every stored wallet id is a string\<close>

lemma credit_branch_strings:
  assumes "credit_branch e s = (x, s')" and "\<forall>w\<in>set (created_wallets s). \<exists>t. w_id w = Str t"
  shows "credits_failed s' = credits_failed s
    \<and> credits_success s' = credits_success s + (if x = None then 1 else 0)"
proof (cases "py_choice (oe_wallet e) (created_wallets s)")
  case (Inl y)
  then show ?thesis using assms(1) by (auto simp: credit_branch_def)
next
  case (Inr w)
  then have "w \<in> set (created_wallets s)" by (rule py_choice_member)
  then obtain t where "w_id w = Str t" using assms(2) by blast
  then show ?thesis
    using assms(1) Inr
    by (auto simp: credit_branch_def credit_wallet_def send_def Let_def
             split: sum.splits response.splits)
qed

lemma debit_branch_strings:
  assumes "debit_branch e s = (x, s')" and "\<forall>w\<in>set (created_wallets s). \<exists>t. w_id w = Str t"
  shows "debits_success s' + debits_failed s' =
           debits_success s + debits_failed s + (if x = None then 1 else 0)
    \<and> (x \<noteq> None \<longrightarrow> debits_failed s' = debits_failed s)"
proof (cases "py_choice (oe_wallet e) (created_wallets s)")
  case (Inl y)
  then show ?thesis using assms(1) by (auto simp: debit_branch_def)
next
  case (Inr w)
  then have "w \<in> set (created_wallets s)" by (rule py_choice_member)
  then obtain t where "w_id w = Str t" using assms(2) by blast
  then show ?thesis
    using assms(1) Inr
    by (auto simp: debit_branch_def debit_wallet_def get_wallet_def send_def Let_def
             split: sum.splits response.splits if_splits)
qed

lemma transfer_branch_strings:
  assumes "transfer_branch e s = (x, s')" and "\<forall>w\<in>set (created_wallets s). \<exists>t. w_id w = Str t"
  shows "transfers_success s' + transfers_failed s' =
           transfers_success s + transfers_failed s + (if x = None then 1 else 0)
    \<and> (x \<noteq> None \<longrightarrow> transfers_failed s' = transfers_failed s)"
proof (cases "length (created_wallets s) < 2")
  case True
  then show ?thesis using assms(1) by (auto simp: transfer_branch_def)
next
  case long: False
  show ?thesis
  proof (cases "py_choice (oe_wallet e) (created_wallets s)")
    case (Inl y)
    then show ?thesis using assms(1) long by (auto simp: transfer_branch_def)
  next
    case (Inr w)
    then have "w \<in> set (created_wallets s)" by (rule py_choice_member)
    then obtain t where t: "w_id w = Str t" using assms(2) by blast
    show ?thesis
    proof (cases "py_choice (oe_to_wallet e)
                    (filter (\<lambda>v. w_id v \<noteq> w_id w) (created_wallets s))")
      case (Inl y)
      then show ?thesis using assms(1) long Inr by (auto simp: transfer_branch_def)
    next
      case to: (Inr v)
      then have "v \<in> set (filter (\<lambda>v. w_id v \<noteq> w_id w) (created_wallets s))"
        by (rule py_choice_member)
      then have "v \<in> set (created_wallets s)" by simp
      then obtain u where u: "w_id v = Str u" using assms(2) by blast
      show ?thesis
        using assms(1) long Inr to t u
        by (auto simp: transfer_branch_def transfer_wallet_def get_wallet_def send_def Let_def
                 split: sum.splits response.splits if_splits)
    qed
  qed
qed

lemma operation_iteration_strings:
  fixes e s
  defines "s' \<equiv> operation_iteration e s" and "op \<equiv> choose_operation (oe_operation e)"
  assumes ids: "\<forall>w\<in>set (created_wallets s). \<exists>t. w_id w = Str t"
  shows "credits_success s' + credits_failed s' =
        credits_success s + credits_failed s + (if op = ''credit'' then 1 else 0)
    \<and> debits_success s' + debits_failed s' =
        debits_success s + debits_failed s + (if op = ''debit'' then 1 else 0)
    \<and> transfers_success s' + transfers_failed s' =
        transfers_success s + transfers_failed s + (if op = ''transfer'' then 1 else 0)"
proof -
  consider "op = ''credit''" | "op = ''debit''" | "op = ''transfer''"
    using choose_operation_cases [of "oe_operation e"] by (auto simp: op_def)
  then show ?thesis
  proof cases
    case 1
    obtain x s1 where b: "credit_branch e s = (x, s1)" by (cases "credit_branch e s")
    have "s' = (case x of None \<Rightarrow> s1 | Some y \<Rightarrow> on_exception ''credit'' s1)"
      using 1 b by (simp add: s'_def operation_iteration_def try_block_def op_def [symmetric])
    then show ?thesis
      using credit_branch_counters [OF b] credit_branch_strings [OF b ids] 1
      by (cases x) (simp_all add: on_exception_def)
  next
    case 2
    obtain x s1 where b: "debit_branch e s = (x, s1)" by (cases "debit_branch e s")
    have "s' = (case x of None \<Rightarrow> s1 | Some y \<Rightarrow> on_exception ''debit'' s1)"
      using 2 b by (simp add: s'_def operation_iteration_def try_block_def op_def [symmetric])
    then show ?thesis
      using debit_branch_counters [OF b] debit_branch_strings [OF b ids] 2
      by (cases x) (simp_all add: on_exception_def)
  next
    case 3
    obtain x s1 where b: "transfer_branch e s = (x, s1)" by (cases "transfer_branch e s")
    have "s' = (case x of None \<Rightarrow> s1 | Some y \<Rightarrow> on_exception ''transfer'' s1)"
      using 3 b by (simp add: s'_def operation_iteration_def try_block_def op_def [symmetric])
    then show ?thesis
      using transfer_branch_counters [OF b] transfer_branch_strings [OF b ids] 3
      by (cases x) (simp_all add: on_exception_def)
  qed
qed

lemma fold_operation_strings:
  assumes "\<forall>w\<in>set (created_wallets s). \<exists>t. w_id w = Str t"
  shows "credits_success (fold operation_iteration es s) + credits_failed (fold operation_iteration es s) =
        credits_success s + credits_failed s + attempts ''credit'' (map oe_operation es)
    \<and> debits_success (fold operation_iteration es s) + debits_failed (fold operation_iteration es s) =
        debits_success s + debits_failed s + attempts ''debit'' (map oe_operation es)
    \<and> transfers_success (fold operation_iteration es s) + transfers_failed (fold operation_iteration es s) =
        transfers_success s + transfers_failed s + attempts ''transfer'' (map oe_operation es)"
  using assms
proof (induction es arbitrary: s)
  case Nil
  show ?case by (simp add: attempts_def)
next
  case (Cons e es)
  have "created_wallets (operation_iteration e s) = created_wallets s"
    using operation_iteration_frame [of e s] by simp
  then have "\<forall>w\<in>set (created_wallets (operation_iteration e s)). \<exists>t. w_id w = Str t"
    using Cons.prems by simp
  then show ?case
    using Cons.IH [of "operation_iteration e s"] operation_iteration_strings [OF Cons.prems, of e]
    by (simp add: attempts_def)
qed

lemma verify_loop_q_strings:
  assumes "\<forall>p\<in>set ps. \<exists>t. fst p = Str t"
  shows "fst (verify_loop_q ps s) = None
   \<and> qrequests (snd (verify_loop_q ps s)) = qrequests s @ map (\<lambda>p. GetLedger (fst p)) ps
   \<and> qreports (snd (verify_loop_q ps s)) =
       qreports s @ map (\<lambda>p. report_line (fst p) (snd p)) ps"
  using assms
proof (induction ps arbitrary: s)
  case Nil
  show ?case by simp
next
  case (Cons p ps)
  obtain i resp where p: "p = (i, resp)" by (cases p)
  obtain t where t: "i = Str t" using Cons.prems p by auto
  obtain x s1 where v: "verify_wallet_q (i, resp) s = (x, s1)"
    by (cases "verify_wallet_q (i, resp) s")
  have e: "x = None" "qrequests s1 = qrequests s @ [GetLedger i]"
      "qreports s1 = qreports s @ [report_line i resp]"
    using verify_wallet_q_effect [of i resp s] v t by simp_all
  have "verify_loop_q (p # ps) s = verify_loop_q ps s1" using p v e(1) by simp
  moreover have "\<forall>p\<in>set ps. \<exists>t. fst p = Str t" using Cons.prems by simp
  ultimately show ?case using Cons.IH [of s1] e p by simp
qed

subsection \<open>The counters of a run\<close>

lemma main_wallet_counters:
  "wallets_created (snd (main w)) + wallets_failed (snd (main w)) = NUM_WALLETS"
proof -
  define s1 where "s1 = create_phase NUM_WALLETS (create_envs w) initial_state"
  define s2 where "s2 = operations_phase NUM_OPERATIONS (op_envs w) s1"
  have c1: "wallets_created s1 + wallets_failed s1 = NUM_WALLETS"
    using fold_create_counters [of "map (create_envs w) [0..<NUM_WALLETS]" initial_state]
    by (simp_all add: s1_def create_phase_def initial_state_def)
  have c2: "wallets_created s2 = wallets_created s1" "wallets_failed s2 = wallets_failed s1"
    using fold_operation_frame [of "map (op_envs w) [0..<NUM_OPERATIONS]" s1]
    by (simp_all add: s2_def operations_phase_def)
  show ?thesis
    using c1 c2 fold_verify_wallet
    by (simp add: main_cases s1_def [symmetric] s2_def [symmetric])
qed

lemma main_q_counters:
  fixes a wq
  defines "sq \<equiv> snd (main_q a wq)"
    and "picks_q \<equiv> map (\<lambda>i. qo_operation (op_envs_q wq i)) [0..<nat (arg_operations a)]"
  assumes r: "fst (main_q a wq) = Returned"
  shows "success (wallets (qstats sq)) + failed (wallets (qstats sq)) = nat (arg_wallets a)
       \<and> (wallet_ids sq \<noteq> [] \<longrightarrow>
            success (credit (qstats sq)) + failed (credit (qstats sq)) = attempts ''credit'' picks_q
          \<and> success (debit (qstats sq)) + failed (debit (qstats sq)) = attempts ''debit'' picks_q
          \<and> success (transfer (qstats sq)) + failed (transfer (qstats sq))
               = attempts ''transfer'' picks_q
          \<and> success (credit (qstats sq)) + failed (credit (qstats sq))
             + success (debit (qstats sq)) + failed (debit (qstats sq))
             + success (transfer (qstats sq)) + failed (transfer (qstats sq))
               = nat (arg_operations a))"
proof -
  obtain q1 where q1: "create_phase_q a (create_envs_q wq) initial_qstate = (None, q1)"
    and rest: "if wallet_ids q1 = [] then sq = q1
      else \<exists>q2. operations_phase_q a (op_envs_q wq) q1 = (None, q2) \<and>
             verify_phase_q (verify_envs_q wq) q2 = (None, sq)"
    using main_q_cases [OF r] by (auto simp: sq_def)
  have w1: "success (wallets (qstats q1)) + failed (wallets (qstats q1)) = nat (arg_wallets a)"
    using create_phase_q_counters [OF q1] by (simp add: initial_qstate_def)
  have f1: "credit (qstats q1) = \<lparr>success = 0, failed = 0\<rparr>"
      "debit (qstats q1) = \<lparr>success = 0, failed = 0\<rparr>"
      "transfer (qstats q1) = \<lparr>success = 0, failed = 0\<rparr>"
    using create_phase_q_frame [of a "create_envs_q wq" initial_qstate] q1
    by (simp_all add: initial_qstate_def)
  show ?thesis
  proof (cases "wallet_ids q1 = []")
    case True
    then show ?thesis using rest w1 by simp
  next
    case False
    then obtain q2 where q2: "operations_phase_q a (op_envs_q wq) q1 = (None, q2)"
      and v: "verify_phase_q (verify_envs_q wq) q2 = (None, sq)"
      using rest by auto
    have "qstats sq = qstats q2" using verify_phase_q_frame [of "verify_envs_q wq" q2] v by simp
    moreover have "attempts ''credit'' picks_q + attempts ''debit'' picks_q
        + attempts ''transfer'' picks_q = nat (arg_operations a)"
      using attempts_total [of picks_q] by (simp add: picks_q_def)
    ultimately show ?thesis
      using operations_phase_q_counters [OF q2] w1 f1 by (simp add: picks_q_def)
  qed
qed

subsection \<open>The ledger sample of \<^verbatim>\<open>load_test_wallets.py\<close>\<close>

lemma verify_phase_sample:
  fixes v s
  defines "sample \<equiv> sample_from (created_wallets s) (min 5 (length (created_wallets s))) (ve_sample v)"
  shows "length sample = min 5 (length (created_wallets s))
    \<and> mset sample \<subseteq># mset (created_wallets s)
    \<and> (distinct (map w_id (created_wallets s)) \<longrightarrow> distinct (map w_id sample))
    \<and> (\<exists>s'. verify_phase v s = Inr s'
          \<and> issued s s' = map (\<lambda>w. GetLedger (w_id w)) sample
          \<and> reports s' = reports s
               @ map (\<lambda>i. report_line (w_id (sample ! i)) (ve_ledger v i)) [0..<length sample])"
proof -
  have l: "length sample = min 5 (length (created_wallets s))"
    by (simp add: sample_def length_sample_from)
  have m: "mset sample \<subseteq># mset (created_wallets s)"
    unfolding sample_def by (rule mset_sample_from)
  have d: "distinct (map w_id (created_wallets s)) \<longrightarrow> distinct (map w_id sample)"
    using distinct_map_submultiset [OF m] by blast
  define s' where "s' = fold verify_wallet
      (zip sample (map (ve_ledger v) [0..<min 5 (length (created_wallets s))])) s"
  have r: "verify_phase v s = Inr s'"
    by (simp add: verify_phase_result s'_def sample_def)
  have "requests s' = requests s @ map (\<lambda>w. GetLedger (w_id w)) sample"
    unfolding s'_def using fold_verify_wallet map_fst_zip_upt [OF l, of "\<lambda>w. GetLedger (w_id w)"]
    by simp
  then have i: "issued s s' = map (\<lambda>w. GetLedger (w_id w)) sample" by (rule issuedI)
  have p: "reports s' = reports s
               @ map (\<lambda>i. report_line (w_id (sample ! i)) (ve_ledger v i)) [0..<length sample]"
    unfolding s'_def
    using fold_verify_wallet map_zip_upt [OF l, of "\<lambda>w. report_line (w_id w)"] l
    by simp
  show ?thesis using l m d r i p by blast
qed

lemma verify_phase_q_sample:
  fixes v sq
  defines "sample_q \<equiv> sample_from (wallet_ids sq) (min 5 (length (wallet_ids sq))) (ve_sample v)"
  shows "length sample_q = min 5 (length (wallet_ids sq))
    \<and> mset sample_q \<subseteq># mset (wallet_ids sq)
    \<and> (distinct (wallet_ids sq) \<longrightarrow> distinct sample_q)
    \<and> ((\<forall>i\<in>set (wallet_ids sq). \<exists>t. i = Str t) \<longrightarrow>
         fst (verify_phase_q v sq) = None
         \<and> issued_q sq (snd (verify_phase_q v sq)) = map GetLedger sample_q
         \<and> qreports (snd (verify_phase_q v sq)) = qreports sq
               @ map (\<lambda>i. report_line (sample_q ! i) (ve_ledger v i)) [0..<length sample_q])"
proof -
  have lq: "length sample_q = min 5 (length (wallet_ids sq))"
    by (simp add: sample_q_def length_sample_from)
  have mq: "mset sample_q \<subseteq># mset (wallet_ids sq)"
    unfolding sample_q_def by (rule mset_sample_from)
  have dq: "distinct (wallet_ids sq) \<longrightarrow> distinct sample_q"
    using distinct_submultiset [OF mq] by blast
  define ps where "ps = zip sample_q (map (ve_ledger v) [0..<min 5 (length (wallet_ids sq))])"
  have rq: "verify_phase_q v sq = verify_loop_q ps sq"
    by (simp add: verify_phase_q_result ps_def sample_q_def)
  have sq: "fst (verify_phase_q v sq) = None
         \<and> issued_q sq (snd (verify_phase_q v sq)) = map GetLedger sample_q
         \<and> qreports (snd (verify_phase_q v sq)) = qreports sq
               @ map (\<lambda>i. report_line (sample_q ! i) (ve_ledger v i)) [0..<length sample_q]"
    if ids: "\<forall>i\<in>set (wallet_ids sq). \<exists>t. i = Str t"
  proof -
    have "set_mset (mset sample_q) \<subseteq> set_mset (mset (wallet_ids sq))"
      using mq by (rule set_mset_mono)
    then have "set sample_q \<subseteq> set (wallet_ids sq)" by simp
    then have "\<forall>p\<in>set ps. \<exists>t. fst p = Str t"
      using ids by (auto simp: ps_def dest!: set_zip_leftD)
    then have e: "fst (verify_loop_q ps sq) = None"
        "qrequests (snd (verify_loop_q ps sq)) = qrequests sq @ map (\<lambda>p. GetLedger (fst p)) ps"
        "qreports (snd (verify_loop_q ps sq)) =
           qreports sq @ map (\<lambda>p. report_line (fst p) (snd p)) ps"
      using verify_loop_q_strings [of ps sq] by simp_all
    have 1: "issued_q sq (snd (verify_phase_q v sq)) = map GetLedger sample_q"
      using e(2) map_fst_zip_upt [OF lq, of GetLedger] by (simp add: rq issued_q_def ps_def)
    have 2: "qreports (snd (verify_phase_q v sq)) = qreports sq
               @ map (\<lambda>i. report_line (sample_q ! i) (ve_ledger v i)) [0..<length sample_q]"
      using e(3) map_zip_upt [OF lq, of report_line] lq by (simp add: rq ps_def)
    show ?thesis using e(1) 1 2 by (simp add: rq)
  qed
  show ?thesis using lq mq dq sq by blast
qed

lemma main_operation_counters:
  fixes w
  defines "s \<equiv> snd (main w)"
    and "picks \<equiv> map (\<lambda>i. oe_operation (op_envs w i)) [0..<NUM_OPERATIONS]"
  assumes ids: "\<forall>r\<in>set (created_wallets (create_phase NUM_WALLETS (create_envs w) initial_state)).
      \<exists>t. w_id r = Str t"
    and returned: "fst (main w) = Returned"
  shows "credits_success s + credits_failed s = attempts ''credit'' picks
       \<and> debits_success s + debits_failed s = attempts ''debit'' picks
       \<and> transfers_success s + transfers_failed s = attempts ''transfer'' picks
       \<and> credits_success s + credits_failed s + debits_success s + debits_failed s
           + transfers_success s + transfers_failed s = NUM_OPERATIONS"
proof -
  define s1 where "s1 = create_phase NUM_WALLETS (create_envs w) initial_state"
  define s2 where "s2 = operations_phase NUM_OPERATIONS (op_envs w) s1"
  have z1: "credits_success s1 = 0" "credits_failed s1 = 0" "debits_success s1 = 0"
      "debits_failed s1 = 0" "transfers_success s1 = 0" "transfers_failed s1 = 0"
    using fold_create_counters [of "map (create_envs w) [0..<NUM_WALLETS]" initial_state]
    by (simp_all add: s1_def create_phase_def initial_state_def)
  have i1: "\<forall>r\<in>set (created_wallets s1). \<exists>t. w_id r = Str t" using ids by (simp add: s1_def)
  have c2: "credits_success s2 + credits_failed s2 = attempts ''credit'' picks"
      "debits_success s2 + debits_failed s2 = attempts ''debit'' picks"
      "transfers_success s2 + transfers_failed s2 = attempts ''transfer'' picks"
    using fold_operation_strings [OF i1, of "map (op_envs w) [0..<NUM_OPERATIONS]"] z1
    by (simp_all add: s2_def operations_phase_def picks_def comp_def)
  have total: "attempts ''credit'' picks + attempts ''debit'' picks + attempts ''transfer'' picks
      = NUM_OPERATIONS"
    using attempts_total [of picks] by (simp add: picks_def)
  have "fst (main w) = Returned \<longrightarrow>
         credits_success s + credits_failed s = attempts ''credit'' picks
       \<and> debits_success s + debits_failed s = attempts ''debit'' picks
       \<and> transfers_success s + transfers_failed s = attempts ''transfer'' picks
       \<and> credits_success s + credits_failed s + debits_success s + debits_failed s
           + transfers_success s + transfers_failed s = NUM_OPERATIONS"
    using c2 total fold_verify_wallet
    by (simp add: s_def main_cases s1_def [symmetric] s2_def [symmetric])
  then show ?thesis using returned by simp
qed

subsection \<open>A run of \<^verbatim>\<open>load_test_wallets.py\<close> with numeric wallet ids\<close>

lemma numeric_create_round:
  "created_wallets (create_iteration (numeric_create i) s) =
     created_wallets s @ [\<lparr>w_id = Num (int i), w_ownerId = ''user-1'', w_balance = PyFloat 100\<rparr>]
   \<and> wallets_created (create_iteration (numeric_create i) s) = wallets_created s + 1
   \<and> credits_success (create_iteration (numeric_create i) s) = credits_success s
   \<and> credits_failed (create_iteration (numeric_create i) s) = credits_failed s"
  by (simp add: create_iteration_def create_wallet_def send_def numeric_create_def Let_def)

lemma numeric_create_phase:
  "created_wallets (create_phase n numeric_create initial_state) =
     map (\<lambda>i. \<lparr>w_id = Num (int i), w_ownerId = ''user-1'', w_balance = PyFloat 100\<rparr>) [0..<n]
   \<and> wallets_created (create_phase n numeric_create initial_state) = n
   \<and> credits_success (create_phase n numeric_create initial_state) = 0
   \<and> credits_failed (create_phase n numeric_create initial_state) = 0"
proof (induction n)
  case 0
  show ?case by (simp add: create_phase_def initial_state_def)
next
  case (Suc n)
  then show ?case
    using numeric_create_round [of n "create_phase n numeric_create initial_state"]
    by (simp add: create_phase_Suc)
qed

lemma numeric_credit_round:
  assumes "created_wallets s \<noteq> []" and "\<forall>w\<in>set (created_wallets s). \<exists>k. w_id w = Num k"
  shows "credits_success (operation_iteration accepted_credit s) = credits_success s + 1
    \<and> credits_failed (operation_iteration accepted_credit s) = credits_failed s + 1
    \<and> created_wallets (operation_iteration accepted_credit s) = created_wallets s
    \<and> requests (operation_iteration accepted_credit s) =
        requests s @ [PostCredit (w_id (hd (created_wallets s))) (PyFloat 10)]"
proof -
  have u: "py_uniform 10 1000 0 = 10"
    unfolding py_uniform_def py_random_values by code_simp
  have r: "py_round2 10 = 10"
    by code_simp
  have c: "py_choice 0 (created_wallets s) = Inr (hd (created_wallets s))"
    using assms(1) by (simp add: py_choice_def hd_conv_nth)
  have "hd (created_wallets s) \<in> set (created_wallets s)" using assms(1) by simp
  then obtain k where k: "w_id (hd (created_wallets s)) = Num k" using assms(2) by blast
  show ?thesis
    by (simp add: operation_iteration_def try_block_def credit_branch_def credit_wallet_def
          on_exception_def choose_operation_def send_def accepted_credit_def Let_def u r c k)
qed

lemma numeric_credit_rounds:
  assumes "created_wallets s \<noteq> []" and "\<forall>w\<in>set (created_wallets s). \<exists>k. w_id w = Num k"
  shows "credits_success (fold operation_iteration (replicate n accepted_credit) s) =
           credits_success s + n
    \<and> credits_failed (fold operation_iteration (replicate n accepted_credit) s) =
           credits_failed s + n"
  using assms
proof (induction n arbitrary: s)
  case 0
  show ?case by simp
next
  case (Suc n)
  have f: "created_wallets (operation_iteration accepted_credit s) = created_wallets s"
    using numeric_credit_round [OF Suc.prems] by simp
  have "credits_success (fold operation_iteration (replicate n accepted_credit)
            (operation_iteration accepted_credit s)) =
          credits_success (operation_iteration accepted_credit s) + n
      \<and> credits_failed (fold operation_iteration (replicate n accepted_credit)
            (operation_iteration accepted_credit s)) =
          credits_failed (operation_iteration accepted_credit s) + n"
    by (rule Suc.IH) (simp_all add: f Suc.prems)
  then show ?case using numeric_credit_round [OF Suc.prems] by simp
qed
section \<open>The claims\<close>

text \<open>
  C8, as amended. The entry point of \<^verbatim>\<open>load_test_wallets.py\<close> prints one message for an
  interruption from the keyboard and a different one for any other exception that escapes
  \<^verbatim>\<open>main\<close>, and it ends the process with exit code 1 in both cases.
\<close>

theorem interruption_and_fault_differ_in_message_only:
  "exit_message KeyboardInterrupt \<noteq> exit_message (Unexpected e)
   \<and> exit_code KeyboardInterrupt = 1 \<and> exit_code (Unexpected e) = 1"
  by (simp add: exit_message_def exit_code_def)

text \<open>
  C8 as stated asks for distinct exit codes. An interruption and a refused connection
  that escapes \<^verbatim>\<open>main\<close> end the process with the same code.
\<close>

theorem interruption_and_fault_share_exit_code:
  "\<not> exit_code KeyboardInterrupt \<noteq> exit_code (Unexpected ''connection refused'')"
  by (simp add: exit_code_def)

text \<open>
  C1 asks that every attempt is counted once. In \<^verbatim>\<open>load_test_wallets.py\<close> the progress line
  of an accepted operation is printed inside the \<^verbatim>\<open>try\<close> block, after the success counter
  was incremented, and it slices the id of the wallet. In the run below the service gives
  its wallets numeric ids and accepts every request, and each of the 200 operations is a
  credit. In each of them the request is sent, \<^verbatim>\<open>credits_success\<close> is incremented, the slice
  raises \<^verbatim>\<open>TypeError\<close>, and the handler increments \<^verbatim>\<open>credits_failed\<close> as well: already the first
  credit leaves both counters at 1, and at the end of the run, which \<^verbatim>\<open>main\<close> completes, the
  two counters add up to 400 for 200 attempts.
\<close>

theorem accepted_credit_is_counted_twice:
  "fst (main numeric_env) = Returned
   \<and> wallets_created (snd (main numeric_env)) = 100
   \<and> w_id (hd (created_wallets (create_phase NUM_WALLETS (create_envs numeric_env) initial_state)))
        = Num 0
   \<and> credits_success (operation_iteration (op_envs numeric_env 0)
        (create_phase NUM_WALLETS (create_envs numeric_env) initial_state)) = 1
   \<and> credits_failed (operation_iteration (op_envs numeric_env 0)
        (create_phase NUM_WALLETS (create_envs numeric_env) initial_state)) = 1
   \<and> issued (create_phase NUM_WALLETS (create_envs numeric_env) initial_state)
        (operation_iteration (op_envs numeric_env 0)
          (create_phase NUM_WALLETS (create_envs numeric_env) initial_state))
        = [PostCredit (Num 0) (PyFloat 10)]
   \<and> attempts ''credit'' (map (\<lambda>i. oe_operation (op_envs numeric_env i)) [0..<NUM_OPERATIONS])
        = 200
   \<and> credits_success (snd (main numeric_env)) = 200
   \<and> credits_failed (snd (main numeric_env)) = 200
   \<and> credits_success (snd (main numeric_env)) + credits_failed (snd (main numeric_env)) = 400"
proof -
  define s1 where "s1 = create_phase NUM_WALLETS (create_envs numeric_env) initial_state"
  define s2 where "s2 = operations_phase NUM_OPERATIONS (op_envs numeric_env) s1"
  have c: "created_wallets s1 =
      map (\<lambda>i. \<lparr>w_id = Num (int i), w_ownerId = ''user-1'', w_balance = PyFloat 100\<rparr>)
        [0..<NUM_WALLETS]"
    and n: "wallets_created s1 = 100" and z: "credits_success s1 = 0" "credits_failed s1 = 0"
    using numeric_create_phase [of NUM_WALLETS]
    by (simp_all add: s1_def numeric_env_def NUM_WALLETS_def)
  have ne: "created_wallets s1 \<noteq> []" by (simp add: c NUM_WALLETS_def)
  have ids: "\<forall>w\<in>set (created_wallets s1). \<exists>k. w_id w = Num k" by (auto simp: c)
  have "[0..<NUM_WALLETS] = 0 # [1..<NUM_WALLETS]"
    by (simp add: NUM_WALLETS_def upt_conv_Cons)
  then have h: "w_id (hd (created_wallets s1)) = Num 0" by (simp add: c)
  have first: "credits_success (operation_iteration accepted_credit s1) = 1"
      "credits_failed (operation_iteration accepted_credit s1) = 1"
      "requests (operation_iteration accepted_credit s1) =
         requests s1 @ [PostCredit (Num 0) (PyFloat 10)]"
    using numeric_credit_round [OF ne ids] z h by simp_all
  have i: "issued s1 (operation_iteration accepted_credit s1) = [PostCredit (Num 0) (PyFloat 10)]"
    using first(3) by (rule issuedI)
  have "map (\<lambda>i. accepted_credit) [0..<NUM_OPERATIONS] = replicate NUM_OPERATIONS accepted_credit"
    by (simp add: map_replicate_const)
  then have s2: "s2 = fold operation_iteration (replicate NUM_OPERATIONS accepted_credit) s1"
    by (simp add: s2_def operations_phase_def numeric_env_def)
  have t: "credits_success s2 = 200" "credits_failed s2 = 200"
    using numeric_credit_rounds [OF ne ids, of NUM_OPERATIONS] z
    by (simp_all add: s2 NUM_OPERATIONS_def)
  have w2: "wallets_created s2 = wallets_created s1"
    using fold_operation_frame [of "map (op_envs numeric_env) [0..<NUM_OPERATIONS]" s1]
    by (simp add: s2_def operations_phase_def)
  have m: "fst (main numeric_env) = Returned"
    by (rule main_returns) (simp add: s1_def [symmetric] n)
  have e: "credits_success (snd (main numeric_env)) = 200"
      "credits_failed (snd (main numeric_env)) = 200"
      "wallets_created (snd (main numeric_env)) = 100"
    using t n w2 fold_verify_wallet
    by (simp_all add: main_cases s1_def [symmetric] s2_def [symmetric])
  have "map (\<lambda>i. oe_operation (op_envs numeric_env i)) [0..<NUM_OPERATIONS] =
      replicate NUM_OPERATIONS 0"
    by (simp add: numeric_env_def accepted_credit_def map_replicate_const)
  then have a: "attempts ''credit''
      (map (\<lambda>i. oe_operation (op_envs numeric_env i)) [0..<NUM_OPERATIONS]) = 200"
    by (simp add: attempts_def choose_operation_def NUM_OPERATIONS_def)
  have o: "op_envs numeric_env 0 = accepted_credit" by (simp add: numeric_env_def)
  show ?thesis
    unfolding o s1_def [symmetric]
    using m e h first(1,2) i a by simp
qed

text \<open>
  C2. With no wallet created, \<^verbatim>\<open>load_test_wallets.py\<close> leaves through \<^verbatim>\<open>sys.exit(1)\<close> before
  the operations phase (lemma \<open>main_exits_without_wallets\<close>). \<^verbatim>\<open>quick_load_test.py\<close> stops
  before the operations phase as well, but by returning from \<^verbatim>\<open>main\<close> (lemma
  \<open>main_q_returns_without_wallets\<close>): in the run below, with the service down for both
  creations, only the two creation requests are sent and the process ends with exit code 0.
\<close>

theorem quick_run_without_wallets_exits_with_zero:
  "fst (main_q outage_args outage_env_q) = Returned
   \<and> exit_code_q (fst (main_q outage_args outage_env_q)) = 0
   \<and> wallet_ids (snd (main_q outage_args outage_env_q)) = []
   \<and> wallets (qstats (snd (main_q outage_args outage_env_q))) = \<lparr>success = 0, failed = 2\<rparr>
   \<and> qrequests (snd (main_q outage_args outage_env_q)) =
        [PostWallet ''w'' ''user-1'' (PyInt 100), PostWallet ''wx'' ''user-1'' (PyInt 101)]"
  by code_simp

text \<open>
  C9. The creation phase of either script only appends to the population. The operations
  phase and the verification phase leave it as it is: nothing is added, removed or
  changed, whatever the service answers, in either mode of execution and however the phase
  ends.
\<close>

theorem population_is_read_only_after_the_build:
  "(\<exists>new. created_wallets (create_phase n cenv s) = created_wallets s @ new)
   \<and> created_wallets (operations_phase m oenv s) = created_wallets s
   \<and> (\<exists>s'. verify_phase v s = Inr s' \<and> created_wallets s' = created_wallets s)
   \<and> (\<exists>new. wallet_ids (snd (create_phase_q a cenv_q sq)) = wallet_ids sq @ new)
   \<and> wallet_ids (snd (operations_phase_q a oenv_q sq)) = wallet_ids sq
   \<and> wallet_ids (snd (verify_phase_q v sq)) = wallet_ids sq"
proof -
  have 1: "\<exists>new. created_wallets (create_phase n cenv s) = created_wallets s @ new"
    using fold_create_counters [of "map cenv [0..<n]" s] by (auto simp: create_phase_def)
  have 2: "created_wallets (operations_phase m oenv s) = created_wallets s"
    using fold_operation_frame [of "map oenv [0..<m]" s] by (simp add: operations_phase_def)
  have 3: "\<exists>s'. verify_phase v s = Inr s' \<and> created_wallets s' = created_wallets s"
    using fold_verify_wallet by (simp add: verify_phase_result)
  have 4: "\<exists>new. wallet_ids (snd (create_phase_q a cenv_q sq)) = wallet_ids sq @ new"
    by (rule create_phase_q_appends)
  have 5: "wallet_ids (snd (operations_phase_q a oenv_q sq)) = wallet_ids sq"
    using operations_phase_q_frame by simp
  have 6: "wallet_ids (snd (verify_phase_q v sq)) = wallet_ids sq"
    using verify_phase_q_frame by simp
  show ?thesis using 1 2 3 4 5 6 by blast
qed

text \<open>
  C10. For each of the three kinds of operation and a non-empty list of wallets,
  \<^verbatim>\<open>perform_operation\<close> returns a result (never \<^verbatim>\<open>None\<close>, and every exception is turned into
  a result) whose type is the kind it was called with; \<^verbatim>\<open>stats\<close> has an entry under that
  type, and \<^verbatim>\<open>main\<close> records the result without an exception.
\<close>

theorem perform_operation_always_returns_a_result:
  assumes "op_type = ''credit'' \<or> op_type = ''debit'' \<or> op_type = ''transfer''"
    and "ids \<noteq> []"
  shows "\<exists>r. fst (perform_operation op_type ids e) = Some r \<and> r_type r = op_type
           \<and> stats_lookup (r_type r) (qstats s) \<noteq> None
           \<and> (\<exists>s1. record_operation (Some r) s = Inr s1)"
proof -
  obtain r where r: "fst (perform_operation op_type ids e) = Some r" "r_type r = op_type"
    using perform_operation_type [OF assms(1)] by blast
  have k: "r_type r = ''wallets'' \<or> r_type r = ''credit'' \<or> r_type r = ''debit'' \<or> r_type r = ''transfer''"
    using r(2) assms(1) by auto
  then obtain st' where "increment (r_type r) (r_success r) (qstats s) = Inr st'"
    using increment_total by blast
  then have "\<exists>s1. record_operation (Some r) s = Inr s1" by (simp add: record_operation_def)
  moreover have "stats_lookup (r_type r) (qstats s) \<noteq> None"
    using k by (auto simp: stats_lookup_def)
  ultimately show ?thesis using r by blast
qed

text \<open>An accepted transfer between two wallets.\<close>

theorem perform_operation_always_returns_a_result_witness:
  "(''transfer'' = ''credit'' \<or> ''transfer'' = ''debit'' \<or> ''transfer'' = ''transfer'')
   \<and> [Str ''w1'', Str ''w2''] \<noteq> []
   \<and> perform_operation ''transfer'' [Str ''w1'', Str ''w2''] accepted_transfer_q =
        (Some \<lparr>r_success = True, r_type = ''transfer'', r_amount = Some 15, r_error = None\<rparr>,
         [PostTransfer (Str ''w1'') (Str ''w2'') (PyInt 15)])
   \<and> (\<exists>r. fst (perform_operation ''transfer'' [Str ''w1'', Str ''w2''] accepted_transfer_q) = Some r
          \<and> r_type r = ''transfer''
          \<and> stats_lookup (r_type r) (qstats initial_qstate) \<noteq> None
          \<and> (\<exists>s1. record_operation (Some r) initial_qstate = Inr s1))"
proof -
  have "perform_operation ''transfer'' [Str ''w1'', Str ''w2''] accepted_transfer_q =
        (Some \<lparr>r_success = True, r_type = ''transfer'', r_amount = Some 15, r_error = None\<rparr>,
         [PostTransfer (Str ''w1'') (Str ''w2'') (PyInt 15)])"
    by (simp add: perform_operation_def accepted_transfer_q_def py_choice_def py_randint_def
          send_def Let_def)
  then show ?thesis
    using perform_operation_always_returns_a_result
            [of "''transfer''" "[Str ''w1'', Str ''w2'']" accepted_transfer_q initial_qstate]
    by simp
qed

text \<open>
  C6 asks that a ledger query that fails does not keep the remaining samples from being
  queried and reported. In \<^verbatim>\<open>quick_load_test.py\<close> the handler of a failed query prints
  \<^verbatim>\<open>wallet_id[:20]\<close>. In the run below the service gives its two wallets the numeric ids 0 and
  1; both are sampled, the ledger query for the first fails, the slice in the handler
  raises \<^verbatim>\<open>TypeError\<close>, and the exception leaves the loop and \<^verbatim>\<open>main\<close>: nothing is reported for
  the first wallet, the second is never queried, and the process ends with exit code 1.
\<close>

theorem failed_ledger_query_ends_the_sample:
  "wallet_ids (snd (main_q numeric_args numeric_env_q)) = [Num 0, Num 1]
   \<and> sample_from [Num 0, Num 1] (min 5 (length [Num 0, Num 1 :: ident]))
        (ve_sample (verify_envs_q numeric_env_q)) = [Num 0, Num 1]
   \<and> ve_ledger (verify_envs_q numeric_env_q) 0 = HttpError
   \<and> fst (main_q numeric_args numeric_env_q) = Unexpected ''TypeError''
   \<and> exit_code_q (fst (main_q numeric_args numeric_env_q)) = 1
   \<and> qrequests (snd (main_q numeric_args numeric_env_q)) =
        [PostWallet ''w'' ''user-1'' (PyInt 100), PostWallet ''wx'' ''user-1'' (PyInt 101),
         PostCredit (Num 0) (PyInt 10), GetLedger (Num 0)]
   \<and> GetLedger (Num 1) \<notin> set (qrequests (snd (main_q numeric_args numeric_env_q)))
   \<and> qreports (snd (main_q numeric_args numeric_env_q)) = []"
  by code_simp

text \<open>
  C5. In every run of either script, each transfer request that is sent names a
  destination different from its source. When fewer than two wallets exist, a transfer
  sends no request at all and is counted as failed: \<^verbatim>\<open>load_test_wallets.py\<close> increments
  \<^verbatim>\<open>transfers_failed\<close> and goes on with the next round, \<^verbatim>\<open>perform_operation\<close> returns a failed
  result of type \<^verbatim>\<open>transfer\<close>, which \<^verbatim>\<open>main\<close> adds to the failed transfers.
\<close>

theorem transfers_never_return_to_their_source:
  "list_all distinct_ends (requests (snd (main w)))
   \<and> list_all distinct_ends (qrequests (snd (main_q a wq)))
   \<and> (choose_operation (oe_operation e) = ''transfer'' \<and> length (created_wallets s) < 2 \<longrightarrow>
        issued s (operation_iteration e s) = []
        \<and> transfers_failed (operation_iteration e s) = transfers_failed s + 1
        \<and> transfers_success (operation_iteration e s) = transfers_success s)
   \<and> (length ids < 2 \<longrightarrow>
        snd (perform_operation ''transfer'' ids eq) = []
        \<and> (\<exists>r sq1. fst (perform_operation ''transfer'' ids eq) = Some r \<and> \<not> r_success r
              \<and> r_type r = ''transfer'' \<and> record_operation (Some r) sq = Inr sq1
              \<and> failed (transfer (qstats sq1)) = failed (transfer (qstats sq)) + 1
              \<and> success (transfer (qstats sq1)) = success (transfer (qstats sq))))"
proof -
  have "\<exists>new. requests (operation_iteration e s) = requests s @ new \<and> list_all distinct_ends new"
    for e s
    using operation_iteration_requests [of e s] by auto
  then have 1: "list_all distinct_ends (requests (snd (main w)))"
    by (intro main_requests_invariant) simp_all
  have "list_all distinct_ends (snd (operation_task ids e))" for ids e
    using perform_operation_requests [of "choose_operation (qo_operation e)" ids e]
    by (auto simp: operation_task_def)
  then have 2: "list_all distinct_ends (qrequests (snd (main_q a wq)))"
    by (intro main_q_requests_invariant) (simp_all add: create_wallet_q_requests)
  have 3: "choose_operation (oe_operation e) = ''transfer'' \<and> length (created_wallets s) < 2 \<longrightarrow>
        issued s (operation_iteration e s) = []
        \<and> transfers_failed (operation_iteration e s) = transfers_failed s + 1
        \<and> transfers_success (operation_iteration e s) = transfers_success s"
    by (simp add: short_population_transfer issued_def)
  have 4: "length ids < 2 \<longrightarrow>
        snd (perform_operation ''transfer'' ids eq) = []
        \<and> (\<exists>r sq1. fst (perform_operation ''transfer'' ids eq) = Some r \<and> \<not> r_success r
              \<and> r_type r = ''transfer'' \<and> record_operation (Some r) sq = Inr sq1
              \<and> failed (transfer (qstats sq1)) = failed (transfer (qstats sq)) + 1
              \<and> success (transfer (qstats sq1)) = success (transfer (qstats sq)))"
    by (simp add: short_population_transfer_q record_failed_transfer)
  show ?thesis using 1 2 3 4 by blast
qed

text \<open>A transfer with a single wallet, in both scripts, and a transfer that is sent.\<close>

theorem transfers_never_return_to_their_source_witness:
  "choose_operation (oe_operation accepted_transfer) = ''transfer''
   \<and> length (created_wallets lonely_state) < 2
   \<and> length [Str ''w1''] < 2
   \<and> operation_iteration accepted_transfer lonely_state = lonely_state\<lparr>transfers_failed := 1\<rparr>
   \<and> issued lonely_state (operation_iteration accepted_transfer lonely_state) = []
   \<and> snd (perform_operation ''transfer'' [Str ''w1''] accepted_transfer_q) = []
   \<and> issued example_state (operation_iteration accepted_transfer example_state) =
        [GetWallet (Str ''w2''), PostTransfer (Str ''w2'') (Str ''w1'') (PyFloat 140)]
   \<and> list_all distinct_ends (requests (snd (main steady_env)))"
proof -
  have 1: "choose_operation (oe_operation accepted_transfer) = ''transfer''"
    by (simp add: choose_operation_def accepted_transfer_def)
  have 2: "length (created_wallets lonely_state) < 2"
    by (simp add: lonely_state_def)
  have 3: "operation_iteration accepted_transfer lonely_state = lonely_state\<lparr>transfers_failed := 1\<rparr>"
    using short_population_transfer [OF 1 2] by (simp add: lonely_state_def initial_state_def)
  have 4: "issued example_state (operation_iteration accepted_transfer example_state) =
        [GetWallet (Str ''w2''), PostTransfer (Str ''w2'') (Str ''w1'') (PyFloat 140)]"
    by (simp add: issued_def operation_iteration_def try_block_def transfer_branch_def
          choose_operation_def accepted_transfer_def example_state_def example_wallets_def
          initial_state_def py_choice_def get_wallet_def transfer_wallet_def send_def
          py_uniform_def py_random_def py_round2_def Let_def; code_simp)
  show ?thesis
    using 1 2 3 4
      transfers_never_return_to_their_source
        [of steady_env example_args example_env_q accepted_transfer lonely_state "[Str ''w1'']"
            accepted_transfer_q initial_qstate]
    by simp
qed

text \<open>
  C4. In \<^verbatim>\<open>load_test_wallets.py\<close>, when the balance read of a debit gives a ceiling
  \<^verbatim>\<open>min(current_balance * 0.5, 500)\<close> of at most 10, or that of a transfer a ceiling
  \<^verbatim>\<open>min(current_balance * 0.3, 300)\<close> of at most 10, both as computed in floats, the round sends
  no request that changes a wallet (the balance read is the only request of the round), the
  failure counter of the kind grows by one and its success counter stays as it is.
\<close>

theorem low_ceiling_skips_the_operation:
  fixes e s
  defines "s' \<equiv> operation_iteration e s"
  assumes get: "oe_get e = Body bal" and bal: "float_balance bal = Inr b"
  shows "(choose_operation (oe_operation e) = ''debit'' \<and> min (float_mul b (1 / 2)) 500 \<le> 10 \<longrightarrow>
            list_all (\<lambda>r. \<not> mutating r) (issued s s')
            \<and> debits_failed s' = debits_failed s + 1 \<and> debits_success s' = debits_success s)
       \<and> (choose_operation (oe_operation e) = ''transfer''
            \<and> min (float_mul b (double (3 / 10))) 300 \<le> 10 \<longrightarrow>
            list_all (\<lambda>r. \<not> mutating r) (issued s s')
            \<and> transfers_failed s' = transfers_failed s + 1
            \<and> transfers_success s' = transfers_success s)"
proof -
  obtain new where new: "requests s' = requests s @ new"
    and shape: "new = []
     \<or> (choose_operation (oe_operation e) = ''credit'' \<and> (\<exists>w\<in>set (created_wallets s).
          new = [PostCredit (w_id w) (PyFloat (py_round2 (py_uniform 10 1000 (oe_amount e))))]))
     \<or> (choose_operation (oe_operation e) \<noteq> ''credit'' \<and>
          (\<exists>w\<in>set (created_wallets s). new = [GetWallet (w_id w)]))
     \<or> (choose_operation (oe_operation e) = ''debit'' \<and> (\<exists>w\<in>set (created_wallets s). \<exists>bal b.
          oe_get e = Body bal \<and> float_balance bal = Inr b \<and> 10 < min (float_mul b (1 / 2)) 500 \<and>
          new = [GetWallet (w_id w),
                 PostDebit (w_id w)
                   (PyFloat (py_round2 (py_uniform 10 (min (float_mul b (1 / 2)) 500) (oe_amount e))))]))
     \<or> (choose_operation (oe_operation e) = ''transfer'' \<and>
          (\<exists>w\<in>set (created_wallets s). \<exists>w2\<in>set (created_wallets s). \<exists>bal b.
          w_id w2 \<noteq> w_id w \<and> oe_get e = Body bal \<and> float_balance bal = Inr b \<and>
          10 < min (float_mul b (double (3 / 10))) 300 \<and>
          new = [GetWallet (w_id w),
                 PostTransfer (w_id w) (w_id w2)
                   (PyFloat (py_round2 (py_uniform 10 (min (float_mul b (double (3 / 10))) 300) (oe_amount e))))]))"
    using operation_iteration_requests [of e s] unfolding s'_def by blast
  have i: "issued s s' = new" using new by (rule issuedI)
  have d: "list_all (\<lambda>r. \<not> mutating r) (issued s s')
            \<and> debits_failed s' = debits_failed s + 1 \<and> debits_success s' = debits_success s"
    if op: "choose_operation (oe_operation e) = ''debit''"
      and low: "min (float_mul b (1 / 2)) 500 \<le> 10"
  proof -
    have n: "\<not> 10 < min (float_mul b (1 / 2)) 500" using low by simp
    have "new = [] \<or> (\<exists>w\<in>set (created_wallets s). new = [GetWallet (w_id w)])"
      using shape op n get bal by auto
    then have 1: "list_all (\<lambda>r. \<not> mutating r) (issued s s')" using i by auto
    have "debits_success s' = debits_success s \<and> debits_failed s' = debits_failed s + 1"
      unfolding s'_def using op get bal n by (rule skipped_debit_counters)
    then show ?thesis using 1 by simp
  qed
  have t: "list_all (\<lambda>r. \<not> mutating r) (issued s s')
            \<and> transfers_failed s' = transfers_failed s + 1
            \<and> transfers_success s' = transfers_success s"
    if op: "choose_operation (oe_operation e) = ''transfer''"
      and low: "min (float_mul b (double (3 / 10))) 300 \<le> 10"
  proof -
    have n: "\<not> 10 < min (float_mul b (double (3 / 10))) 300" using low by simp
    have "new = [] \<or> (\<exists>w\<in>set (created_wallets s). new = [GetWallet (w_id w)])"
      using shape op n get bal by auto
    then have 1: "list_all (\<lambda>r. \<not> mutating r) (issued s s')" using i by auto
    have "transfers_success s' = transfers_success s
        \<and> transfers_failed s' = transfers_failed s + 1"
      unfolding s'_def using op get bal n by (rule skipped_transfer_counters)
    then show ?thesis using 1 by simp
  qed
  show ?thesis using d t by blast
qed

text \<open>A debit that reads a balance of 5, and a transfer that reads a balance of
  33.333333333333336: the product with \<^verbatim>\<open>0.3\<close> is 10.000000000000001 in exact arithmetic and
  10.0 in floats, so the transfer is skipped.\<close>

theorem low_ceiling_skips_the_operation_witness:
  "oe_get low_balance_debit = Body (Balance 5)
   \<and> float_balance (Balance 5) = Inr (double 5)
   \<and> choose_operation (oe_operation low_balance_debit) = ''debit''
   \<and> min (float_mul (double 5) (1 / 2)) 500 \<le> 10
   \<and> operation_iteration low_balance_debit example_state =
        example_state\<lparr>requests := [GetWallet (Str ''w1'')], debits_failed := 1\<rparr>
   \<and> oe_get threshold_transfer = Body (Balance (4166666666666667 / 125000000000000))
   \<and> choose_operation (oe_operation threshold_transfer) = ''transfer''
   \<and> 10 < (4166666666666667 / 125000000000000) * (3 / 10 :: rat)
   \<and> float_mul (double (4166666666666667 / 125000000000000)) (double (3 / 10)) = 10
   \<and> operation_iteration threshold_transfer example_state =
        example_state\<lparr>requests := [GetWallet (Str ''w1'')], transfers_failed := 1\<rparr>
   \<and> list_all (\<lambda>r. \<not> mutating r)
        (issued example_state (operation_iteration low_balance_debit example_state))
   \<and> list_all (\<lambda>r. \<not> mutating r)
        (issued example_state (operation_iteration threshold_transfer example_state))"
proof -
  have 1: "oe_get low_balance_debit = Body (Balance 5)" by (simp add: low_balance_debit_def)
  have 2: "float_balance (Balance 5) = Inr (double 5)" by simp
  have 3: "choose_operation (oe_operation low_balance_debit) = ''debit''"
    by (simp add: low_balance_debit_def choose_operation_def)
  have h: "float_mul (double 5) (1 / 2) = 5 / 2" by code_simp
  have 4: "min (float_mul (double 5) (1 / 2)) 500 \<le> 10" by (simp add: h)
  have 5: "operation_iteration low_balance_debit example_state =
        example_state\<lparr>requests := [GetWallet (Str ''w1'')], debits_failed := 1\<rparr>"
    by (simp add: operation_iteration_def try_block_def debit_branch_def choose_operation_def
          low_balance_debit_def example_state_def example_wallets_def initial_state_def
          py_choice_def get_wallet_def send_def Let_def h)
  have 6: "oe_get threshold_transfer = Body (Balance (4166666666666667 / 125000000000000))"
    by (simp add: threshold_transfer_def)
  have 7: "float_balance (Balance (4166666666666667 / 125000000000000)) =
      Inr (double (4166666666666667 / 125000000000000))"
    by simp
  have 8: "choose_operation (oe_operation threshold_transfer) = ''transfer''"
    by (simp add: threshold_transfer_def choose_operation_def)
  have 9: "float_mul (double (4166666666666667 / 125000000000000)) (double (3 / 10)) = 10"
    by code_simp
  have 10: "operation_iteration threshold_transfer example_state =
        example_state\<lparr>requests := [GetWallet (Str ''w1'')], transfers_failed := 1\<rparr>"
    by (simp add: operation_iteration_def try_block_def transfer_branch_def choose_operation_def
          threshold_transfer_def example_state_def example_wallets_def initial_state_def
          py_choice_def get_wallet_def send_def Let_def 9)
  show ?thesis
    using 1 2 3 4 5 6 8 9 10
      low_ceiling_skips_the_operation [OF 1 2, of example_state]
      low_ceiling_skips_the_operation [OF 6 7, of example_state]
    by simp
qed

text \<open>
  C3, as amended. In \<^verbatim>\<open>load_test_wallets.py\<close> a debit request is the second request of its
  round, after the read of the balance of the same wallet; it is sent only when the
  ceiling \<^verbatim>\<open>min(current_balance * 0.5, 500)\<close> exceeds 10; its amount is computed from a draw
  \<open>u\<close> of \<^verbatim>\<open>random.uniform(10, ceiling)\<close>, which lies between 10 and the ceiling, and is at least
  10. The same holds for a transfer, with the ceiling \<^verbatim>\<open>min(current_balance * 0.3, 300)\<close>. In \<^verbatim>\<open>quick_load_test.py\<close> an operation reads no
  balance (every request it sends changes a wallet); the amount of a debit is an integer in
  \<open>[10, 200]\<close> and that of a transfer an integer in \<open>[10, 300]\<close>.
\<close>

theorem debit_and_transfer_amounts:
  fixes e s op_type ids eq
  defines "new \<equiv> issued s (operation_iteration e s)"
    and "new_q \<equiv> snd (perform_operation op_type ids eq)"
  shows "(PostDebit wid amt \<in> set new \<longrightarrow>
           (\<exists>bal b u. oe_get e = Body bal \<and> float_balance bal = Inr b
              \<and> new = [GetWallet wid, PostDebit wid amt]
              \<and> 10 < min (float_mul b (1 / 2)) 500
              \<and> u = py_uniform 10 (min (float_mul b (1 / 2)) 500) (oe_amount e)
              \<and> 10 \<le> u \<and> u \<le> min (float_mul b (1 / 2)) 500
              \<and> amt = PyFloat (py_round2 u) \<and> 10 \<le> py_round2 u))
       \<and> (PostTransfer wid dst amt \<in> set new \<longrightarrow>
           (\<exists>bal b u. oe_get e = Body bal \<and> float_balance bal = Inr b
              \<and> new = [GetWallet wid, PostTransfer wid dst amt]
              \<and> 10 < min (float_mul b (double (3 / 10))) 300
              \<and> u = py_uniform 10 (min (float_mul b (double (3 / 10))) 300) (oe_amount e)
              \<and> 10 \<le> u \<and> u \<le> min (float_mul b (double (3 / 10))) 300
              \<and> amt = PyFloat (py_round2 u) \<and> 10 \<le> py_round2 u))
       \<and> list_all mutating new_q
       \<and> (PostDebit wid amt \<in> set new_q \<longrightarrow> (\<exists>k. amt = PyInt k \<and> 10 \<le> k \<and> k \<le> 200))
       \<and> (PostTransfer wid dst amt \<in> set new_q \<longrightarrow>
             (\<exists>k. amt = PyInt k \<and> 10 \<le> k \<and> k \<le> 300))"
proof -
  have d: "\<exists>bal b u. oe_get e = Body bal \<and> float_balance bal = Inr b
              \<and> new = [GetWallet wid, PostDebit wid amt]
              \<and> 10 < min (float_mul b (1 / 2)) 500
              \<and> u = py_uniform 10 (min (float_mul b (1 / 2)) 500) (oe_amount e)
              \<and> 10 \<le> u \<and> u \<le> min (float_mul b (1 / 2)) 500
              \<and> amt = PyFloat (py_round2 u) \<and> 10 \<le> py_round2 u"
    if mem: "PostDebit wid amt \<in> set new"
  proof -
    obtain bal b where b: "oe_get e = Body bal" "float_balance bal = Inr b"
        "10 < min (float_mul b (1 / 2)) 500"
        "issued s (operation_iteration e s) = [GetWallet wid, PostDebit wid amt]"
        "amt = PyFloat (py_round2 (py_uniform 10 (min (float_mul b (1 / 2)) 500) (oe_amount e)))"
      using debit_request_shape [OF mem [unfolded new_def]] by blast
    show ?thesis
      using b rounded_draw_bounds [OF double_caps(1) _ b(3), of "oe_amount e"]
      unfolding new_def by auto
  qed
  have t: "\<exists>bal b u. oe_get e = Body bal \<and> float_balance bal = Inr b
              \<and> new = [GetWallet wid, PostTransfer wid dst amt]
              \<and> 10 < min (float_mul b (double (3 / 10))) 300
              \<and> u = py_uniform 10 (min (float_mul b (double (3 / 10))) 300) (oe_amount e)
              \<and> 10 \<le> u \<and> u \<le> min (float_mul b (double (3 / 10))) 300
              \<and> amt = PyFloat (py_round2 u) \<and> 10 \<le> py_round2 u"
    if mem: "PostTransfer wid dst amt \<in> set new"
  proof -
    obtain bal b where b: "oe_get e = Body bal" "float_balance bal = Inr b"
        "10 < min (float_mul b (double (3 / 10))) 300"
        "issued s (operation_iteration e s) = [GetWallet wid, PostTransfer wid dst amt]"
        "amt = PyFloat (py_round2 (py_uniform 10 (min (float_mul b (double (3 / 10))) 300)
                 (oe_amount e)))"
      using transfer_request_shape [OF mem [unfolded new_def]] by blast
    show ?thesis
      using b rounded_draw_bounds [OF double_caps(2) _ b(3), of "oe_amount e"]
      unfolding new_def by auto
  qed
  have q: "new_q = []
     \<or> (op_type = ''credit'' \<and> (\<exists>w\<in>set ids.
           new_q = [PostCredit w (PyInt (py_randint 10 500 (qo_amount eq)))]))
     \<or> (op_type = ''debit'' \<and> (\<exists>w\<in>set ids.
           new_q = [PostDebit w (PyInt (py_randint 10 200 (qo_amount eq)))]))
     \<or> (op_type = ''transfer'' \<and> (\<exists>w\<in>set ids. \<exists>w2\<in>set ids. w2 \<noteq> w \<and>
           new_q = [PostTransfer w w2 (PyInt (py_randint 10 300 (qo_amount eq)))]))"
    unfolding new_q_def by (rule perform_operation_requests)
  have m: "list_all mutating new_q" using q by auto
  have dq: "\<exists>k. amt = PyInt k \<and> 10 \<le> k \<and> k \<le> 200" if "PostDebit wid amt \<in> set new_q"
    using q that py_randint_bounds [of 10 200 "qo_amount eq"] by auto
  have tq: "\<exists>k. amt = PyInt k \<and> 10 \<le> k \<and> k \<le> 300" if "PostTransfer wid dst amt \<in> set new_q"
    using q that py_randint_bounds [of 10 300 "qo_amount eq"] by auto
  show ?thesis using d t m dq tq by blast
qed

text \<open>A debit and a transfer of each script that are sent.\<close>

theorem debit_and_transfer_amounts_witness:
  "issued example_state (operation_iteration accepted_debit example_state) =
     [GetWallet (Str ''w2''), PostDebit (Str ''w2'') (PyFloat 230)]
   \<and> PostDebit (Str ''w2'') (PyFloat 230)
        \<in> set (issued example_state (operation_iteration accepted_debit example_state))
   \<and> issued example_state (operation_iteration accepted_transfer example_state) =
     [GetWallet (Str ''w2''), PostTransfer (Str ''w2'') (Str ''w1'') (PyFloat 140)]
   \<and> PostTransfer (Str ''w2'') (Str ''w1'') (PyFloat 140)
        \<in> set (issued example_state (operation_iteration accepted_transfer example_state))
   \<and> PostDebit (Str ''w1'') (PyInt 200)
        \<in> set (snd (perform_operation ''debit'' [Str ''w1''] largest_debit_q))
   \<and> PostTransfer (Str ''w1'') (Str ''w2'') (PyInt 15)
        \<in> set (snd (perform_operation ''transfer'' [Str ''w1'', Str ''w2''] accepted_transfer_q))
   \<and> (\<exists>bal b. oe_get accepted_debit = Body bal \<and> float_balance bal = Inr b
          \<and> 10 < min (float_mul b (1 / 2)) 500
          \<and> py_round2 (py_uniform 10 (min (float_mul b (1 / 2)) 500) (oe_amount accepted_debit))
              = 230)
   \<and> (\<exists>bal b. oe_get accepted_transfer = Body bal \<and> float_balance bal = Inr b
          \<and> 10 < min (float_mul b (double (3 / 10))) 300
          \<and> py_round2 (py_uniform 10 (min (float_mul b (double (3 / 10))) 300)
               (oe_amount accepted_transfer)) = 140)"
proof -
  have 1: "issued example_state (operation_iteration accepted_debit example_state) =
     [GetWallet (Str ''w2''), PostDebit (Str ''w2'') (PyFloat 230)]"
    by (simp add: issued_def operation_iteration_def try_block_def debit_branch_def
          choose_operation_def accepted_debit_def example_state_def example_wallets_def
          initial_state_def py_choice_def get_wallet_def debit_wallet_def send_def
          py_uniform_def py_random_def py_round2_def Let_def; code_simp)
  have 2: "issued example_state (operation_iteration accepted_transfer example_state) =
     [GetWallet (Str ''w2''), PostTransfer (Str ''w2'') (Str ''w1'') (PyFloat 140)]"
    by (simp add: issued_def operation_iteration_def try_block_def transfer_branch_def
          choose_operation_def accepted_transfer_def example_state_def example_wallets_def
          initial_state_def py_choice_def get_wallet_def transfer_wallet_def send_def
          py_uniform_def py_random_def py_round2_def Let_def; code_simp)
  have 3: "snd (perform_operation ''debit'' [Str ''w1''] largest_debit_q) =
      [PostDebit (Str ''w1'') (PyInt 200)]"
    by (simp add: perform_operation_def largest_debit_q_def py_choice_def py_randint_def
          send_def Let_def)
  have 4: "snd (perform_operation ''transfer'' [Str ''w1'', Str ''w2''] accepted_transfer_q) =
      [PostTransfer (Str ''w1'') (Str ''w2'') (PyInt 15)]"
    by (simp add: perform_operation_def accepted_transfer_q_def py_choice_def py_randint_def
          send_def Let_def)
  show ?thesis
    using 1 2 3 4
      debit_and_transfer_amounts [where s = example_state and e = accepted_debit
        and wid = "Str ''w2''" and amt = "PyFloat 230" and dst = "Str ''w1''"
        and op_type = "''debit''" and ids = "[Str ''w1'']" and eq = largest_debit_q]
      debit_and_transfer_amounts [where s = example_state and e = accepted_transfer
        and wid = "Str ''w2''" and amt = "PyFloat 140" and dst = "Str ''w1''"
        and op_type = "''transfer''" and ids = "[Str ''w1'', Str ''w2'']"
        and eq = accepted_transfer_q]
    by (simp add: accepted_debit_def accepted_transfer_def)
qed

text \<open>
  C3 as stated fails in two ways. A debit of \<^verbatim>\<open>quick_load_test.py\<close> sends its request
  without any read of the balance, with an amount that does not depend on it. And in
  \<^verbatim>\<open>load_test_wallets.py\<close> a transfer that reads the balance 33.42 computes the ceiling
  10.026, draws 10.0251875 and sends the rounded amount 10.03, which exceeds the ceiling.
\<close>

theorem quick_debit_reads_no_balance_and_rounding_exceeds_the_ceiling:
  "snd (perform_operation ''debit'' [Str ''w1''] largest_debit_q) =
     [PostDebit (Str ''w1'') (PyInt 200)]
   \<and> GetWallet (Str ''w1'') \<notin> set (snd (perform_operation ''debit'' [Str ''w1''] largest_debit_q))
   \<and> oe_get rounding_transfer = Body (Balance (1671 / 50))
   \<and> issued example_state (operation_iteration rounding_transfer example_state) =
        [GetWallet (Str ''w1''), PostTransfer (Str ''w1'') (Str ''w2'') (PyFloat (1003 / 100))]
   \<and> min (float_mul (double (1671 / 50)) (double (3 / 10))) 300 =
        2822068116501037 / 281474976710656
   \<and> \<not> (1003 / 100 \<le> min (float_mul (double (1671 / 50)) (double (3 / 10))) 300)"
proof -
  have 1: "snd (perform_operation ''debit'' [Str ''w1''] largest_debit_q) =
     [PostDebit (Str ''w1'') (PyInt 200)]"
    by (simp add: perform_operation_def largest_debit_q_def py_choice_def py_randint_def
          send_def Let_def)
  have 2: "issued example_state (operation_iteration rounding_transfer example_state) =
        [GetWallet (Str ''w1''), PostTransfer (Str ''w1'') (Str ''w2'') (PyFloat (1003 / 100))]"
    by (simp add: issued_def operation_iteration_def try_block_def transfer_branch_def
          choose_operation_def rounding_transfer_def example_state_def example_wallets_def
          initial_state_def py_choice_def get_wallet_def transfer_wallet_def send_def
          py_uniform_def py_random_def py_round2_def Let_def; code_simp)
  have 3: "min (float_mul (double (1671 / 50)) (double (3 / 10))) 300 =
        2822068116501037 / 281474976710656"
    by code_simp
  show ?thesis using 1 2 by (simp add: 3 rounding_transfer_def)
qed

text \<open>
  C7, as amended. Every initial balance and amount that \<^verbatim>\<open>load_test_wallets.py\<close> sends is a
  positive float with at most two decimal places; every initial balance and amount that
  \<^verbatim>\<open>quick_load_test.py\<close> sends is a Python integer of at least 10, hence a positive integer.
\<close>

theorem amounts_are_positive_integers_or_cents:
  "list_all positive_cents (amounts (requests (snd (main w))))
   \<and> list_all (\<lambda>v. positive_integer v \<and> (\<exists>k. v = PyInt k \<and> 10 \<le> k))
        (amounts (qrequests (snd (main_q a wq))))"
proof -
  define P where "P = (\<lambda>r. case amount_of r of None \<Rightarrow> True | Some v \<Rightarrow> positive_cents v)"
  define Q where "Q = (\<lambda>r. case amount_of r of None \<Rightarrow> True
                          | Some v \<Rightarrow> positive_integer v \<and> (\<exists>k. v = PyInt k \<and> 10 \<le> k))"
  have c: "positive_cents (PyFloat (py_round2 (py_uniform 10 c k)))" if "10 < c" for c k
    using rounded_draw_cents [of 10 10 c k] that by (simp add: double_10)
  have "P (PostWallet i ow (PyFloat (py_round2 (py_uniform 100 10000 k))))" for i ow k
    using rounded_draw_cents [of 100 100 10000 k] by (simp add: P_def double_100)
  moreover have "\<exists>new. requests (operation_iteration e s) = requests s @ new \<and> list_all P new"
    for e s
    using operation_iteration_requests [of e s] c by (auto simp: P_def)
  moreover have "P (GetLedger i)" for i by (simp add: P_def)
  ultimately have "list_all P (requests (snd (main w)))"
    by (intro main_requests_invariant) blast+
  then have 1: "list_all positive_cents (amounts (requests (snd (main w))))"
    by (simp add: amounts_all P_def)
  have i: "positive_integer (PyInt (py_randint a b k)) \<and> 10 \<le> py_randint a b k"
    if "10 \<le> a" "a \<le> b" for a b k
    using py_randint_bounds [OF that(2), of k] that(1) by (simp add: positive_integer_PyInt)
  have "list_all Q (snd (create_wallet_q e))" for e
    using i [of 100 5000] by (simp add: create_wallet_q_requests Q_def)
  moreover have "list_all Q (snd (operation_task ids e))" for ids e
    using perform_operation_requests [of "choose_operation (qo_operation e)" ids e]
      i [of 10 500] i [of 10 200] i [of 10 300]
    by (auto simp: operation_task_def Q_def)
  moreover have "Q (GetLedger i)" for i by (simp add: Q_def)
  ultimately have "list_all Q (qrequests (snd (main_q a wq)))"
    by (intro main_q_requests_invariant) blast+
  then have 2: "list_all (\<lambda>v. positive_integer v \<and> (\<exists>k. v = PyInt k \<and> 10 \<le> k))
        (amounts (qrequests (snd (main_q a wq))))"
    by (simp add: amounts_all Q_def)
  show ?thesis using 1 2 by blast
qed

text \<open>
  C7 as stated asks for integers everywhere. The creation round of
  \<^verbatim>\<open>load_test_wallets.py\<close> that draws \<^verbatim>\<open>random() = 0.125\<close> sends the initial balance 1337.5.
\<close>

theorem fractional_initial_balance:
  "requests (create_iteration fractional_create initial_state) =
     [PostWallet ''w1'' ''user-1'' (PyFloat (2675 / 2))]
   \<and> \<not> list_all positive_integer (amounts (requests (create_iteration fractional_create initial_state)))"
proof -
  have 1: "requests (create_iteration fractional_create initial_state) =
     [PostWallet ''w1'' ''user-1'' (PyFloat (2675 / 2))]"
    by (simp add: create_iteration_requests fractional_create_def initial_state_def
          py_uniform_def py_random_def py_round2_def Let_def; code_simp)
  have "\<not> positive_integer (PyFloat (2675 / 2))"
    by (simp add: positive_integer_def is_integral_def floor_numeral_fraction)
  then show ?thesis using 1 by (simp add: amounts_def)
qed


end
